theory Spec2Isabelle
  imports Complex_Main "HOL-Library.AList"
begin

section \<open>JavaScript values\<close>

text \<open>
  Numbers. A finite double is modelled by the real it denotes (rounding, overflow and the
  sign of zero are outside the model); the two infinities and \<open>NaN\<close> are values of their
  own, because the program's behaviour branches on them: \<open>parseFloat\<close> answers \<open>NaN\<close> for
  text that is no number, and every comparison with \<open>NaN\<close> is false.
\<close>

datatype jsnum = Num real | PosInf | NegInf | NaN

text \<open>A value read from a property or an array slot: \<open>None\<close> is \<open>undefined\<close>.\<close>

type_synonym jsval = "jsnum option"

text \<open>What the program can throw: a TypeError of the language, or the \<open>Error\<close> that
  \<open>loadData\<close> raises for a response that is not ok (a failed \<open>fetch\<close> counts as one).\<close>

datatype js_error = TypeError | LoadError string

text \<open>\<open>ToNumber\<close> on such a value: \<open>undefined\<close> becomes \<open>NaN\<close>.\<close>

fun to_number :: "jsval \<Rightarrow> jsnum" where
  "to_number None = NaN"
| "to_number (Some v) = v"

text \<open>The binary \<open>-\<close> of JavaScript.\<close>

fun js_sub :: "jsnum \<Rightarrow> jsnum \<Rightarrow> jsnum" where
  "js_sub NaN b = NaN"
| "js_sub a NaN = NaN"
| "js_sub (Num a) (Num b) = Num (a - b)"
| "js_sub (Num a) PosInf = NegInf"
| "js_sub (Num a) NegInf = PosInf"
| "js_sub PosInf PosInf = NaN"
| "js_sub PosInf b = PosInf"
| "js_sub NegInf NegInf = NaN"
| "js_sub NegInf b = NegInf"

text \<open>The relational operators \<open><\<close> and \<open><=\<close>; both are false when an operand is \<open>NaN\<close>.\<close>

fun js_lt :: "jsnum \<Rightarrow> jsnum \<Rightarrow> bool" where
  "js_lt NaN b = False"
| "js_lt a NaN = False"
| "js_lt (Num a) (Num b) = (a < b)"
| "js_lt a PosInf = (a \<noteq> PosInf)"
| "js_lt PosInf b = False"
| "js_lt NegInf b = (b \<noteq> NegInf)"
| "js_lt a NegInf = False"

definition js_le :: "jsnum \<Rightarrow> jsnum \<Rightarrow> bool" where
  "js_le a b = (a \<noteq> NaN \<and> b \<noteq> NaN \<and> (a = b \<or> js_lt a b))"

text \<open>Strict equality \<open>===\<close> on values: \<open>undefined === undefined\<close> holds,
  \<open>NaN === NaN\<close> does not.\<close>

definition js_strict_eq :: "jsval \<Rightarrow> jsval \<Rightarrow> bool" where
  "js_strict_eq a b = (a = b \<and> a \<noteq> Some NaN)"

text \<open>\<open>xs[k]\<close> for an integer \<open>k\<close>, on an array whose slots may hold \<open>undefined\<close>:
  outside the array the answer is \<open>undefined\<close> as well.\<close>

definition js_index :: "'a option list \<Rightarrow> int \<Rightarrow> 'a option" where
  "js_index xs k = (if 0 \<le> k \<and> k < int (length xs) then xs ! nat k else None)"

text \<open>\<open>xs.indexOf(v)\<close>: the first index whose element is strictly equal to \<open>v\<close>,
  and \<open>-1\<close> when there is none.\<close>

fun indexOf_from :: "int \<Rightarrow> jsval list \<Rightarrow> jsval \<Rightarrow> int" where
  "indexOf_from k [] v = -1"
| "indexOf_from k (x # xs) v = (if js_strict_eq x v then k else indexOf_from (k + 1) xs v)"

definition indexOf :: "jsval list \<Rightarrow> jsval \<Rightarrow> int" where
  "indexOf xs v = indexOf_from 0 xs v"

section \<open>Strings and \<open>parseFloat\<close>\<close>

text \<open>
  Strings are lists of code units below 256. \<open>is_ws\<close> holds of the white space and line
  terminators among them, which \<open>trim\<close> and \<open>parseFloat\<close> skip.
\<close>

definition is_ws :: "char \<Rightarrow> bool" where
  "is_ws c = (c \<in> set [CHR 0x09, CHR 0x0A, CHR 0x0B, CHR 0x0C, CHR 0x0D, CHR 0x20, CHR 0xA0])"

definition trim :: "string \<Rightarrow> string" where
  "trim s = rev (dropWhile is_ws (rev (dropWhile is_ws s)))"

text \<open>\<open>s.split(c)\<close> for a one-character separator: the pieces between the separators,
  the empty ones included.\<close>

fun split_char :: "char \<Rightarrow> string \<Rightarrow> string list" where
  "split_char c [] = [[]]"
| "split_char c (x # xs) =
     (if x = c then [] # split_char c xs
      else (case split_char c xs of
              [] \<Rightarrow> [[x]]
            | w # ws \<Rightarrow> (x # w) # ws))"

definition is_digit :: "char \<Rightarrow> bool" where
  "is_digit c = (c \<in> set ''0123456789'')"

definition digit_val :: "char \<Rightarrow> nat" where
  "digit_val c = length (takeWhile (\<lambda>d. d \<noteq> c) ''0123456789'')"

definition digits_value :: "string \<Rightarrow> nat" where
  "digits_value ds = foldl (\<lambda>acc c. 10 * acc + digit_val c) 0 ds"

text \<open>An optional sign in front of the rest of the text.\<close>

fun take_sign :: "string \<Rightarrow> bool \<times> string" where
  "take_sign [] = (False, [])"
| "take_sign (c # cs) =
     (if c = CHR ''-'' then (True, cs)
      else if c = CHR ''+'' then (False, cs)
      else (False, c # cs))"

text \<open>The exponent part \<open>e\<close>, \<open>E\<close> with an optional sign and at least one digit; an
  incomplete exponent is not part of the number.\<close>

definition exponent_of :: "string \<Rightarrow> int" where
  "exponent_of s =
     (case s of
        [] \<Rightarrow> 0
      | c # cs \<Rightarrow>
          if c = CHR ''e'' \<or> c = CHR ''E'' then
            (let (neg, r) = take_sign cs; ds = takeWhile is_digit r
             in if ds = [] then 0
                else if neg then - int (digits_value ds) else int (digits_value ds))
          else 0)"

definition scale10 :: "real \<Rightarrow> int \<Rightarrow> real" where
  "scale10 m e = (if 0 \<le> e then m * 10 ^ nat e else m / 10 ^ nat (- e))"

text \<open>
  \<open>parseFloat\<close> on a string: leading white space is skipped, then the longest prefix that
  is a decimal literal (\<open>Infinity\<close>, or digits with an optional fraction and exponent,
  after an optional sign) is the number; with no such prefix the result is \<open>NaN\<close>.
\<close>

definition parseFloat_string :: "string \<Rightarrow> jsnum" where
  "parseFloat_string s =
     (let (neg, s2) = take_sign (dropWhile is_ws s) in
      if take 8 s2 = ''Infinity'' then (if neg then NegInf else PosInf)
      else
        (let ip = takeWhile is_digit s2;
             r1 = dropWhile is_digit s2;
             fp = (case r1 of [] \<Rightarrow> [] | c # cs \<Rightarrow> if c = CHR ''.'' then takeWhile is_digit cs else []);
             r2 = (case r1 of [] \<Rightarrow> [] | c # cs \<Rightarrow> if c = CHR ''.'' then dropWhile is_digit cs else r1)
         in if ip = [] \<and> fp = [] then NaN
            else
              (let m = real (digits_value ip) + real (digits_value fp) / 10 ^ length fp;
                   v = scale10 m (exponent_of r2)
               in Num (if neg then - v else v))))"

text \<open>\<open>parseFloat(v)\<close> for a value that may be \<open>undefined\<close>: the argument is converted
  to a string first, and \<open>undefined\<close> becomes the text \<open>undefined\<close>.\<close>

definition parseFloat :: "string option \<Rightarrow> jsnum" where
  "parseFloat v = (case v of None \<Rightarrow> parseFloat_string ''undefined'' | Some s \<Rightarrow> parseFloat_string s)"

text \<open>Whether a text starts, after white space and an optional sign, with a number as
  \<open>parseFloat\<close> reads one: \<open>Infinity\<close>, a digit, or a point followed by a digit.\<close>

definition numeric_prefix :: "string \<Rightarrow> bool" where
  "numeric_prefix s =
     (let (neg, s2) = take_sign (dropWhile is_ws s) in
      take 8 s2 = ''Infinity''
      \<or> (case s2 of
            [] \<Rightarrow> False
          | c # cs \<Rightarrow> is_digit c \<or> (c = CHR ''.'' \<and> (case cs of [] \<Rightarrow> False | d # ds \<Rightarrow> is_digit d))))"

section \<open>Rows and \<open>parseCSV\<close>\<close>

text \<open>
  A row is a plain object (\<open>{}\<close>) whose properties are numbers. It is modelled by the list
  of its own properties in the order in which the language enumerates them: first the
  keys that are array indices (\<open>0\<close>, \<open>1\<close>, ..., written without leading zeros and below
  \<open>2^32 - 1\<close>) in ascending numeric order, then the other keys in the order of their
  creation.
\<close>

type_synonym row = "(string \<times> jsnum) list"

definition get_prop :: "row \<Rightarrow> string \<Rightarrow> jsval" where
  "get_prop r k = map_of r k"

definition is_array_index :: "string \<Rightarrow> bool" where
  "is_array_index k =
     (k \<noteq> [] \<and> list_all is_digit k \<and> (k = ''0'' \<or> take 1 k \<noteq> ''0'')
      \<and> digits_value k < 4294967295)"

text \<open>A new array-index key goes after the smaller array-index keys.\<close>

fun insert_index :: "string \<Rightarrow> jsnum \<Rightarrow> row \<Rightarrow> row" where
  "insert_index k v [] = [(k, v)]"
| "insert_index k v ((k', v') # r) =
     (if is_array_index k' \<and> digits_value k' < digits_value k
      then (k', v') # insert_index k v r
      else (k, v) # (k', v') # r)"

text \<open>
  \<open>row[k] = v\<close> for a number \<open>v\<close>. The name \<open>__proto__\<close> is an accessor that a plain object
  inherits: its setter ignores a value that is neither an object nor \<open>null\<close>, so the
  assignment creates no property. For every other name the assignment replaces the
  value of a property that exists, in place, and creates the property otherwise.
\<close>

definition set_prop :: "row \<Rightarrow> string \<Rightarrow> jsnum \<Rightarrow> row" where
  "set_prop r k v =
     (if k = ''__proto__'' then r
      else if k \<in> set (map fst r) then AList.update k v r
      else if is_array_index k then insert_index k v r
      else r @ [(k, v)])"

text \<open>\<open>values[index]\<close> on the array of a line's fields.\<close>

definition field_at :: "string list \<Rightarrow> nat \<Rightarrow> string option" where
  "field_at vs i = (if i < length vs then Some (vs ! i) else None)"

text \<open>The body of the \<open>map\<close> callback of \<open>parseCSV\<close>: one row from one line.\<close>

definition parse_line :: "string list \<Rightarrow> string \<Rightarrow> row" where
  "parse_line headers line =
     (let vs = split_char CHR '','' line in
      fold (\<lambda>(index, header) r. set_prop r header (parseFloat (field_at vs index)))
        (List.enumerate 0 headers) [])"

text \<open>\<open>parseCSV\<close> (simulation.js lines 128-142, the same text in the single-stream
  script). \<open>lines[0].split\<close> would raise a TypeError on an empty array of lines.\<close>

definition parseCSV :: "string \<Rightarrow> js_error + row list" where
  "parseCSV csvText =
     (let lines = split_char CHR 0x0A (trim csvText) in
      case lines of
        [] \<Rightarrow> Inl TypeError
      | l0 # rest \<Rightarrow>
          (let headers = split_char CHR '','' l0
           in Inr (map (parse_line headers) rest)))"

section \<open>The Timeline Extractor\<close>

text \<open>\<open>[...new Set(xs)]\<close>: the values of \<open>xs\<close> in the order of their first occurrence.
  A \<open>Set\<close> compares by SameValueZero, under which \<open>NaN\<close> equals \<open>NaN\<close>: equality of the
  model.\<close>

definition Set_values :: "'a list \<Rightarrow> 'a list" where
  "Set_values xs = foldl (\<lambda>acc x. if x \<in> set acc then acc else acc @ [x]) [] xs"

text \<open>
  \<open>Array.prototype.sort\<close> with a comparator. \<open>undefined\<close> elements go last without the
  comparator being asked; for the others the comparator's answer \<open>v\<close> puts \<open>a\<close> after \<open>b\<close>
  when \<open>v > 0\<close>, an answer \<open>NaN\<close> counting as \<open>0\<close>. The sort is stable; it is modelled as an
  insertion sort. (For a comparator that is not a consistent order, as \<open>a - b\<close> is not on
  \<open>NaN\<close>, the language leaves the resulting permutation to the implementation.)
\<close>

definition sort_after :: "jsnum \<Rightarrow> bool" where
  "sort_after v = js_lt (Num 0) v"

fun sort_insert :: "(jsnum \<Rightarrow> jsnum \<Rightarrow> jsnum) \<Rightarrow> jsnum \<Rightarrow> jsnum list \<Rightarrow> jsnum list" where
  "sort_insert cmp x [] = [x]"
| "sort_insert cmp x (y # ys) =
     (if sort_after (cmp x y) then y # sort_insert cmp x ys else x # y # ys)"

definition js_sort :: "(jsnum \<Rightarrow> jsnum \<Rightarrow> jsnum) \<Rightarrow> jsval list \<Rightarrow> jsval list" where
  "js_sort cmp xs =
     map Some (foldr (sort_insert cmp) (List.map_filter (\<lambda>x. x) xs) [])
       @ filter (\<lambda>x. x = None) xs"

text \<open>Line 103 of simulation.js (line 53 of the single-stream script):
  \<open>[...new Set(rows.map(row => row.time))].sort((a, b) => a - b)\<close>.\<close>

definition extract_timeline :: "row list \<Rightarrow> jsval list" where
  "extract_timeline rows =
     js_sort (\<lambda>a b. js_sub a b) (Set_values (map (\<lambda>r. get_prop r ''time'') rows))"

text \<open>A timeline is strictly ascending when each tick is \<open><\<close> every later one.\<close>

definition strictly_ascending :: "jsval list \<Rightarrow> bool" where
  "strictly_ascending ts = sorted_wrt (\<lambda>a b. js_lt (to_number a) (to_number b)) ts"

text \<open>A value that is a number: neither \<open>undefined\<close> nor \<open>NaN\<close>.\<close>

definition is_number :: "jsval \<Rightarrow> bool" where
  "is_number v = (v \<noteq> None \<and> v \<noteq> Some NaN)"

section \<open>Tick indices\<close>

text \<open>
  A tick index (\<open>currentTimeIndex\<close>) is a JavaScript number that the program only ever
  sets to \<open>0\<close> or to \<open>(index + 1) % timePoints.length\<close>. Its values are therefore the
  natural numbers and \<open>NaN\<close>, the latter being what \<open>%\<close> gives for a divisor \<open>0\<close>.
\<close>

datatype jsindex = Idx nat | IdxNaN

text \<open>\<open>(index + 1) % length\<close>, the right-hand side of line 246 of simulation.js
  (and of line 133 of the single-stream script).\<close>

fun advance_tick :: "jsindex \<Rightarrow> nat \<Rightarrow> jsindex" where
  "advance_tick (Idx i) n = (if n = 0 then IdxNaN else Idx ((i + 1) mod n))"
| "advance_tick IdxNaN n = IdxNaN"

section \<open>Output surfaces and Streams\<close>

text \<open>
  What a canvas shows is modelled by the list of things drawn on it since it was last
  cleared, oldest first: \<open>clearRect\<close> over the whole canvas empties the list, every drawing
  call appends to it. Texts are kept with the values interpolated into them. A
  precomputed frame, the \<open>Image\<close> made from the offscreen canvas, is a snapshot of that
  canvas's list.
\<close>

datatype drawn =
    LoadingText string
  | PrecomputingText nat
  | ErrorText js_error
  | MosquitoWithTrail row "row list"
  | TimeText jsnum
  | CoordinateSystem
  | DistributionPoint row
  | DistributionTitle jsnum
  | FrameImage "drawn list"

type_synonym canvas = "drawn list"

text \<open>The state object of one dataset (simulation.js lines 60-69). \<open>precomputedFrames\<close>
  is a JavaScript array: a slot that was never assigned is \<open>None\<close>.\<close>

record sim =
  ctx :: canvas
  mosquitoData :: "row list"
  timePoints :: "jsval list"
  currentTimeIndex :: jsindex
  precomputedFrames :: "drawn option list"
  isPrecomputing :: bool
  precomputeProgress :: nat
  isReady :: bool

text \<open>The module-level variables of simulation.js. \<open>simulations\<close> is an object keyed by
  dataset id; \<open>for ... in\<close> and \<open>Object.values\<close> walk it in insertion order.\<close>

record state =
  simulations :: "(string \<times> sim) list"
  isPlaying :: bool
  lastFrameTime :: real
  loadedDatasets :: nat
  precomputedDatasets :: nat
  totalDatasetsToLoad :: nat
  animationStarted :: bool
  playPauseBtn_textContent :: string

definition FPS :: real where
  "FPS = 50"

definition FRAME_INTERVAL :: real where
  "FRAME_INTERVAL = 1000 / FPS"

definition TRAIL_LENGTH :: nat where
  "TRAIL_LENGTH = 5"

definition chunkSize :: nat where
  "chunkSize = 10"

text \<open>The dataset configurations (simulation.js lines 11-36): id, title, file.\<close>

definition datasets :: "(string \<times> string \<times> string) list" where
  "datasets =
     [(''none'', ''Free Flight'', ''./data/trajectories_none.csv''),
      (''co2'', ''CO2'', ''./data/trajectories_co2.csv''),
      (''visual'', ''Visual Cue'', ''./data/trajectories_visual.csv''),
      (''visualco2'', ''Visual + CO2'', ''./data/trajectories_visualco2.csv'')]"

text \<open>The variables as the script leaves them once it has run to its last line, before
  any callback; the button's text comes from the page.\<close>

definition initial_state :: "string \<Rightarrow> state" where
  "initial_state button_text =
     \<lparr>simulations = [], isPlaying = False, lastFrameTime = 0, loadedDatasets = 0,
      precomputedDatasets = 0, totalDatasetsToLoad = length datasets,
      animationStarted = False, playPauseBtn_textContent = button_text\<rparr>"

section \<open>The Trail Resolver\<close>

text \<open>
  The \<open>for\<close> loop of \<open>getTrailData\<close> (simulation.js lines 286-299), from \<open>i\<close> up to and
  including \<open>hi\<close>. \<open>find\<close> answers \<open>undefined\<close> when no row matches, and then nothing is
  pushed.
\<close>

function trail_loop ::
  "jsval list \<Rightarrow> row list \<Rightarrow> row \<Rightarrow> int \<Rightarrow> nat \<Rightarrow> nat \<Rightarrow> row list \<Rightarrow> row list" where
  "trail_loop tps rows cur timeIndex hi i trail =
     (if i \<le> hi then
        (let prevTimeIndex = timeIndex - int i in
         if prevTimeIndex < 0 then trail
         else
           (let prevTime = js_index tps prevTimeIndex;
                prevPosition =
                  find (\<lambda>r. js_strict_eq (get_prop r ''trajectory_id'') (get_prop cur ''trajectory_id'')
                            \<and> js_strict_eq (get_prop r ''time'') prevTime) rows
            in trail_loop tps rows cur timeIndex hi (i + 1)
                 (case prevPosition of None \<Rightarrow> trail | Some p \<Rightarrow> trail @ [p])))
      else trail)"
  by pat_completeness auto
termination
  by (relation "measure (\<lambda>(tps, rows, cur, timeIndex, hi, i, trail). Suc hi - i)") auto

declare trail_loop.simps [simp del]

definition getTrailData :: "row \<Rightarrow> sim \<Rightarrow> row list" where
  "getTrailData currentMosquito s =
     trail_loop (timePoints s) (mosquitoData s) currentMosquito
       (indexOf (timePoints s) (get_prop currentMosquito ''time'')) (TRAIL_LENGTH + 2) 3 []"

text \<open>The tick index of a sample in a timeline (\<open>-1\<close> when its time is not a tick), and the
  first sample of the trajectory of \<open>cur\<close> at tick \<open>k\<close>, as the loop of \<open>getTrailData\<close> looks
  it up.\<close>

definition tick_of :: "jsval list \<Rightarrow> row \<Rightarrow> int" where
  "tick_of tps r = indexOf tps (get_prop r ''time'')"

definition sample_at :: "jsval list \<Rightarrow> row list \<Rightarrow> row \<Rightarrow> int \<Rightarrow> row option" where
  "sample_at tps rows cur k =
     find (\<lambda>r. js_strict_eq (get_prop r ''trajectory_id'') (get_prop cur ''trajectory_id'')
               \<and> js_strict_eq (get_prop r ''time'') (js_index tps k)) rows"

text \<open>An entity has prior history when some sample of its trajectory lies at an earlier
  tick of the timeline.\<close>

definition has_prior_history :: "jsval list \<Rightarrow> row list \<Rightarrow> row \<Rightarrow> bool" where
  "has_prior_history tps rows cur =
     (\<exists>r \<in> set rows. get_prop r ''trajectory_id'' = get_prop cur ''trajectory_id''
         \<and> 0 \<le> tick_of tps r \<and> tick_of tps r < tick_of tps cur)"

section \<open>The Frame Cache\<close>

text \<open>\<open>xs[k] = v\<close> on an array: a write past the end leaves empty slots before it.\<close>

definition js_store :: "'a option list \<Rightarrow> nat \<Rightarrow> 'a \<Rightarrow> 'a option list" where
  "js_store xs k v =
     (if k < length xs then xs[k := Some v]
      else xs @ replicate (k - length xs) None @ [Some v])"

text \<open>One frame on the offscreen canvas (lines 174-185): the mosquitoes of that time with
  their trails, then the time label. \<open>time.toFixed\<close> raises a TypeError when the time is
  \<open>undefined\<close>.\<close>

definition render_frame :: "sim \<Rightarrow> jsval \<Rightarrow> js_error + drawn" where
  "render_frame s time =
     (let currentMosquitoes = filter (\<lambda>r. js_strict_eq (get_prop r ''time'') time) (mosquitoData s);
          offscreen = map (\<lambda>m. MosquitoWithTrail m (getTrailData m s)) currentMosquitoes
      in case time of
           None \<Rightarrow> Inl TypeError
         | Some t \<Rightarrow> Inr (FrameImage (offscreen @ [TimeText t])))"

text \<open>The inner loop over \<open>j\<close> (lines 169-187). An exception leaves the frames stored so
  far in place.\<close>

function precompute_inner :: "sim \<Rightarrow> nat \<Rightarrow> nat \<Rightarrow> (js_error \<times> sim) + sim" where
  "precompute_inner s i j =
     (if j < chunkSize \<and> i + j < length (timePoints s) then
        (case render_frame s (js_index (timePoints s) (int (i + j))) of
           Inl e \<Rightarrow> Inl (e, s)
         | Inr frameImage \<Rightarrow>
             precompute_inner (s\<lparr>precomputedFrames := js_store (precomputedFrames s) (i + j) frameImage\<rparr>)
               i (j + 1))
      else Inr s)"
  by pat_completeness auto
termination
  by (relation "measure (\<lambda>(s, i, j). chunkSize - j)") auto

declare precompute_inner.simps [simp del]

text \<open>\<open>Math.round\<close> of a non-negative quotient.\<close>

definition round_div :: "nat \<Rightarrow> nat \<Rightarrow> nat" where
  "round_div a b = nat \<lfloor>real a / real b + 1 / 2\<rfloor>"

text \<open>Lines 149-155: the start of \<open>precomputeFrames\<close>, up to the loop.\<close>

definition precompute_begin :: "sim \<Rightarrow> sim" where
  "precompute_begin s =
     s\<lparr>isPrecomputing := True, precomputeProgress := 0, ctx := ctx s @ [PrecomputingText 0]\<rparr>"

text \<open>One round of the outer loop after its \<open>await\<close> (lines 169-194): the chunk that
  starts at \<open>i\<close>, then the progress update.\<close>

definition precompute_chunk :: "sim \<Rightarrow> nat \<Rightarrow> (js_error \<times> sim) + sim" where
  "precompute_chunk s i =
     (case precompute_inner s i 0 of
        Inl e \<Rightarrow> Inl e
      | Inr s1 \<Rightarrow>
          (let progress = min 100 (round_div ((i + chunkSize) * 100) (length (timePoints s1)))
           in Inr (s1\<lparr>precomputeProgress := progress, ctx := [PrecomputingText progress]\<rparr>)))"

text \<open>Lines 197-204: the Stream is ready and shows its first frame.\<close>

definition precompute_ready :: "sim \<Rightarrow> sim" where
  "precompute_ready s =
     s\<lparr>isPrecomputing := False, isReady := True,
       ctx := (case js_index (precomputedFrames s) 0 of None \<Rightarrow> [] | Some f \<Rightarrow> [f])\<rparr>"

text \<open>Lines 206-216: one more dataset is precomputed; when the count equals the total,
  \<open>isPlaying\<close> is set and the button reads \<open>Pause\<close>.\<close>

definition mark_precomputed :: "state \<Rightarrow> state" where
  "mark_precomputed st =
     (let st1 = st\<lparr>precomputedDatasets := precomputedDatasets st + 1\<rparr>
      in if precomputedDatasets st1 = totalDatasetsToLoad st1
         then st1\<lparr>isPlaying := True, playPauseBtn_textContent := ''Pause''\<rparr>
         else st1)"

text \<open>Lines 108-115 of \<open>loadData\<close>, which run when \<open>precomputeFrames\<close> has returned.\<close>

definition loadData_done :: "state \<Rightarrow> state" where
  "loadData_done st =
     (let st1 = st\<lparr>loadedDatasets := loadedDatasets st + 1\<rparr>
      in if loadedDatasets st1 = totalDatasetsToLoad st1 \<and> \<not> animationStarted st1
         then st1\<lparr>animationStarted := True\<rparr>
         else st1)"

text \<open>The \<open>catch\<close> block of \<open>loadData\<close> (lines 117-124): the error is written on the
  Stream's canvas, over what is there.\<close>

definition loadData_catch :: "js_error \<Rightarrow> sim \<Rightarrow> sim" where
  "loadData_catch e s = s\<lparr>ctx := ctx s @ [ErrorText e]\<rparr>"

definition update_sim :: "string \<Rightarrow> (sim \<Rightarrow> sim) \<Rightarrow> state \<Rightarrow> state" where
  "update_sim ident f st =
     st\<lparr>simulations := map (\<lambda>(k, s). if k = ident then (k, f s) else (k, s)) (simulations st)\<rparr>"

text \<open>The end of \<open>precomputeFrames\<close> for the dataset \<open>ident\<close> and the rest of its
  \<open>loadData\<close>: no click and no animation frame can come between the two.\<close>

definition precompute_finish :: "string \<Rightarrow> state \<Rightarrow> state" where
  "precompute_finish ident st = loadData_done (mark_precomputed (update_sim ident precompute_ready st))"

text \<open>
  \<open>loadData\<close> from the answer of \<open>fetch\<close> on (lines 90-106), for a dataset that was
  initialised: either an error, or the text of the file, which is parsed and stored
  before \<open>precomputeFrames\<close> starts. With an empty timeline the loop of
  \<open>precomputeFrames\<close> is skipped and the function runs to its end at once; otherwise it
  stops at the first \<open>await\<close>.
\<close>

definition loadData_response :: "string \<Rightarrow> js_error + string \<Rightarrow> state \<Rightarrow> state" where
  "loadData_response ident response st =
     (case map_of (simulations st) ident of
        None \<Rightarrow> st
      | Some s0 \<Rightarrow>
          (case response of
             Inl e \<Rightarrow> update_sim ident (loadData_catch e) st
           | Inr csvText \<Rightarrow>
               (case parseCSV csvText of
                  Inl e \<Rightarrow> update_sim ident (loadData_catch e) st
                | Inr parsedData \<Rightarrow>
                    (let timeline = extract_timeline parsedData;
                         st1 = update_sim ident
                                 (\<lambda>s. precompute_begin (s\<lparr>mosquitoData := parsedData, timePoints := timeline\<rparr>)) st
                     in if 0 < length timeline then st1 else precompute_finish ident st1))))"

text \<open>
  \<open>precomputeFrames\<close> of the dataset \<open>ident\<close> resumed after the \<open>await\<close> of the round that
  starts at \<open>i\<close> (there is such a round only for \<open>i\<close> below the length of the timeline):
  the chunk, then either the next \<open>await\<close> or the end of the function. An exception ends
  up in the \<open>catch\<close> block of \<open>loadData\<close>.
\<close>

definition precompute_resume :: "string \<Rightarrow> nat \<Rightarrow> state \<Rightarrow> state" where
  "precompute_resume ident i st =
     (case map_of (simulations st) ident of
        None \<Rightarrow> st
      | Some s \<Rightarrow>
          if i < length (timePoints s) then
            (case precompute_chunk s i of
               Inl (e, s1) \<Rightarrow> update_sim ident (\<lambda>_. loadData_catch e s1) st
             | Inr s1 \<Rightarrow>
                 (let st1 = update_sim ident (\<lambda>_. s1) st
                  in if i + chunkSize < length (timePoints s1) then st1
                     else precompute_finish ident st1))
          else st)"

text \<open>\<open>initAllSimulations\<close> (lines 54-74) with the part of \<open>loadData\<close> before its first
  \<open>await\<close>. The canvas of a dataset keeps what it shows when its state object is
  replaced.\<close>

definition init_dataset :: "string \<times> string \<times> string \<Rightarrow> state \<Rightarrow> state" where
  "init_dataset d st =
     (case d of (ident, title, file) \<Rightarrow>
        (let shown = (case map_of (simulations st) ident of None \<Rightarrow> [] | Some s \<Rightarrow> ctx s);
             fresh = \<lparr>ctx = shown @ [LoadingText title], mosquitoData = [], timePoints = [],
                      currentTimeIndex = Idx 0, precomputedFrames = [], isPrecomputing = False,
                      precomputeProgress = 0, isReady = False\<rparr>
         in st\<lparr>simulations := AList.update ident fresh (simulations st)\<rparr>))"

definition initAllSimulations :: "state \<Rightarrow> state" where
  "initAllSimulations st = fold init_dataset datasets st"

section \<open>The Playback Clock\<close>

text \<open>The remainder operator \<open>%\<close> on numbers, for a divisor other than \<open>0\<close>: the quotient is
  truncated towards zero. The program divides by \<open>FRAME_INTERVAL\<close> only.\<close>

definition js_rem :: "real \<Rightarrow> real \<Rightarrow> real" where
  "js_rem x y = x - y * of_int (if 0 \<le> x / y then \<lfloor>x / y\<rfloor> else \<lceil>x / y\<rceil>)"

text \<open>\<open>xs[i]\<close> for a tick index.\<close>

fun index_at :: "'a option list \<Rightarrow> jsindex \<Rightarrow> 'a option" where
  "index_at xs (Idx i) = js_index xs (int i)"
| "index_at xs IdxNaN = None"

definition allReady :: "state \<Rightarrow> bool" where
  "allReady st = list_all (\<lambda>(k, s). isReady s) (simulations st)"

text \<open>Lines 238-247: one Stream draws its current frame and moves to the next tick.\<close>

definition play_sim :: "sim \<Rightarrow> sim" where
  "play_sim s =
     (if 0 < length (precomputedFrames s) then
        s\<lparr>ctx := (case index_at (precomputedFrames s) (currentTimeIndex s) of
                    None \<Rightarrow> []
                  | Some f \<Rightarrow> [f]),
          currentTimeIndex := advance_tick (currentTimeIndex s) (length (timePoints s))\<rparr>
      else s)"

text \<open>Lines 254-259: a Stream that is precomputing shows its progress.\<close>

definition show_progress :: "sim \<Rightarrow> sim" where
  "show_progress s =
     (if isPrecomputing s then s\<lparr>ctx := [PrecomputingText (precomputeProgress s)]\<rparr> else s)"

definition map_sims :: "(sim \<Rightarrow> sim) \<Rightarrow> state \<Rightarrow> state" where
  "map_sims f st = st\<lparr>simulations := map (\<lambda>(k, s). (k, f s)) (simulations st)\<rparr>"

text \<open>\<open>animateAll\<close> (lines 220-264). \<open>!lastFrameTime\<close> holds when the variable is \<open>0\<close>.\<close>

definition animateAll :: "real \<Rightarrow> state \<Rightarrow> state" where
  "animateAll timestamp st =
     (let st1 = (if lastFrameTime st = 0 then st\<lparr>lastFrameTime := timestamp\<rparr> else st);
          deltaTime = timestamp - lastFrameTime st1
      in if isPlaying st1 \<and> allReady st1 then
           (if deltaTime \<ge> FRAME_INTERVAL then
              map_sims play_sim (st1\<lparr>lastFrameTime := timestamp - js_rem deltaTime FRAME_INTERVAL\<rparr>)
            else st1)
         else if \<not> allReady st1 then map_sims show_progress st1
         else st1)"

section \<open>The Transport Controller\<close>

text \<open>The click listener of the play/pause button (lines 364-367).\<close>

definition playPause_click :: "state \<Rightarrow> state" where
  "playPause_click st =
     (let st1 = st\<lparr>isPlaying := \<not> isPlaying st\<rparr>
      in st1\<lparr>playPauseBtn_textContent := (if isPlaying st1 then ''Pause'' else ''Play'')\<rparr>)"

text \<open>The body of the loop of the reset listener (lines 372-379).\<close>

definition reset_sim :: "sim \<Rightarrow> sim" where
  "reset_sim s =
     (let s1 = s\<lparr>currentTimeIndex := Idx 0\<rparr>
      in case (if 0 < length (precomputedFrames s1) then js_index (precomputedFrames s1) 0 else None) of
           None \<Rightarrow> s1
         | Some f \<Rightarrow> s1\<lparr>ctx := [f]\<rparr>)"

text \<open>The click listener of the reset button (lines 369-381).\<close>

definition reset_click :: "state \<Rightarrow> state" where
  "reset_click st = map_sims reset_sim st"

section \<open>Runs\<close>

text \<open>
  The program is single-threaded: between two \<open>await\<close>s a callback runs to its end before
  the next one starts. A run is the list of callbacks in the order in which they ran.
\<close>

datatype event =
    ImageLoaded
  | Response string "js_error + string"
  | ChunkTurn string nat
  | Click_playPause
  | Click_reset
  | Frame real

fun step :: "event \<Rightarrow> state \<Rightarrow> state" where
  "step ImageLoaded st = initAllSimulations st"
| "step (Response ident r) st = loadData_response ident r st"
| "step (ChunkTurn ident i) st = precompute_resume ident i st"
| "step Click_playPause st = playPause_click st"
| "step Click_reset st = reset_click st"
| "step (Frame timestamp) st = (if animationStarted st then animateAll timestamp st else st)"

definition run :: "event list \<Rightarrow> state \<Rightarrow> state" where
  "run evs st = fold step evs st"



text \<open>\<open>n\<close> animation frames one frame interval apart, the first one interval after
  \<open>t0\<close>.\<close>

definition frame_times :: "real \<Rightarrow> nat \<Rightarrow> event list" where
  "frame_times t0 n = map (\<lambda>j. Frame (t0 + FRAME_INTERVAL * real j)) [1..<Suc n]"

text \<open>What one callback other than a click on play/pause does to the three variables
  \<open>totalDatasetsToLoad\<close>, \<open>precomputedDatasets\<close> and \<open>isPlaying\<close>: nothing, or it counts one
  more dataset and sets \<open>isPlaying\<close> when that was the last one.\<close>

definition counts_one :: "state \<Rightarrow> state \<Rightarrow> bool" where
  "counts_one st st' =
     (totalDatasetsToLoad st' = totalDatasetsToLoad st
      \<and> ((precomputedDatasets st' = precomputedDatasets st \<and> isPlaying st' = isPlaying st)
         \<or> (precomputedDatasets st' = precomputedDatasets st + 1
            \<and> isPlaying st' = (precomputedDatasets st + 1 = totalDatasetsToLoad st \<or> isPlaying st))))"

section \<open>The single-stream script\<close>

text \<open>
  The second script of the repository plays one dataset and draws every frame when it is
  shown. Its module-level variables, with the two canvases:
\<close>

record page =
  s_simulationCanvas :: canvas
  s_distributionCanvas :: canvas
  s_mosquitoData :: "row list"
  s_timePoints :: "jsval list"
  s_currentTimeIndex :: jsindex
  s_isPlaying :: bool
  s_lastFrameTime :: real
  s_lastDistributionUpdateTime :: jsval
  s_playPauseBtn_textContent :: string

definition s_TRAIL_LENGTH :: nat where
  "s_TRAIL_LENGTH = 10"

definition DISTRIBUTION_UPDATE_INTERVAL :: real where
  "DISTRIBUTION_UPDATE_INTERVAL = 1 / 10"

definition DISTRIBUTION_SAMPLE_INTERVAL :: real where
  "DISTRIBUTION_SAMPLE_INTERVAL = 5 / 100"

text \<open>\<open>getTrailData\<close> of this script (lines 182-203): the loop runs from \<open>1\<close> to
  \<open>TRAIL_LENGTH\<close>.\<close>

definition s_getTrailData :: "row \<Rightarrow> page \<Rightarrow> row list" where
  "s_getTrailData currentMosquito pg =
     trail_loop (s_timePoints pg) (s_mosquitoData pg) currentMosquito
       (indexOf (s_timePoints pg) (get_prop currentMosquito ''time'')) s_TRAIL_LENGTH 1 []"

text \<open>\<open>updateSimulation\<close> (lines 110-134). \<open>currentTime.toFixed\<close> raises a TypeError when
  the current tick has no time; what was drawn before stays.\<close>

definition updateSimulation :: "page \<Rightarrow> (js_error \<times> page) + page" where
  "updateSimulation pg =
     (let currentTime = index_at (s_timePoints pg) (s_currentTimeIndex pg);
          currentMosquitoes = filter (\<lambda>r. js_strict_eq (get_prop r ''time'') currentTime) (s_mosquitoData pg);
          pg1 = pg\<lparr>s_simulationCanvas :=
                     CoordinateSystem # map (\<lambda>m. MosquitoWithTrail m (s_getTrailData m pg)) currentMosquitoes\<rparr>
      in case currentTime of
           None \<Rightarrow> Inl (TypeError, pg1)
         | Some t \<Rightarrow>
             Inr (pg1\<lparr>s_simulationCanvas := s_simulationCanvas pg1 @ [TimeText t],
                      s_currentTimeIndex := advance_tick (s_currentTimeIndex pg1) (length (s_timePoints pg1))\<rparr>))"

text \<open>\<open>updateDistribution\<close> (lines 247-278). \<open>includes\<close> compares by SameValueZero.\<close>

definition updateDistribution :: "jsval \<Rightarrow> page \<Rightarrow> (js_error \<times> page) + page" where
  "updateDistribution currentTime pg =
     (let sampleTimes =
            filter (\<lambda>time. js_le (to_number time) (to_number currentTime)
                     \<and> js_lt (js_sub (to_number currentTime) (Num DISTRIBUTION_SAMPLE_INTERVAL)) (to_number time))
              (s_timePoints pg);
          positions = filter (\<lambda>r. get_prop r ''time'' \<in> set sampleTimes) (s_mosquitoData pg);
          pg1 = pg\<lparr>s_distributionCanvas := CoordinateSystem # map DistributionPoint positions\<rparr>
      in case currentTime of
           None \<Rightarrow> Inl (TypeError, pg1)
         | Some t \<Rightarrow> Inr (pg1\<lparr>s_distributionCanvas := s_distributionCanvas pg1 @ [DistributionTitle t]\<rparr>))"

text \<open>\<open>animate\<close> (lines 87-107). An exception leaves the callback before it asks for the
  next animation frame.\<close>

definition animate :: "real \<Rightarrow> page \<Rightarrow> (js_error \<times> page) + page" where
  "animate timestamp pg =
     (let pg1 = (if s_lastFrameTime pg = 0 then pg\<lparr>s_lastFrameTime := timestamp\<rparr> else pg);
          deltaTime = timestamp - s_lastFrameTime pg1
      in if s_isPlaying pg1 \<and> deltaTime \<ge> FRAME_INTERVAL then
           (case updateSimulation (pg1\<lparr>s_lastFrameTime := timestamp\<rparr>) of
              Inl e \<Rightarrow> Inl e
            | Inr pg2 \<Rightarrow>
                (let currentTime = index_at (s_timePoints pg2) (s_currentTimeIndex pg2)
                 in if js_le (Num DISTRIBUTION_UPDATE_INTERVAL)
                         (js_sub (to_number currentTime) (to_number (s_lastDistributionUpdateTime pg2)))
                       \<or> js_strict_eq (s_lastDistributionUpdateTime pg2) (Some (Num 0))
                    then (case updateDistribution currentTime pg2 of
                            Inl e \<Rightarrow> Inl e
                          | Inr pg3 \<Rightarrow> Inr (pg3\<lparr>s_lastDistributionUpdateTime := currentTime\<rparr>))
                    else Inr pg2))
         else Inr pg1)"

text \<open>The two click listeners of this script (lines 299-307).\<close>

definition s_playPause_click :: "page \<Rightarrow> page" where
  "s_playPause_click pg =
     (let pg1 = pg\<lparr>s_isPlaying := \<not> s_isPlaying pg\<rparr>
      in pg1\<lparr>s_playPauseBtn_textContent := (if s_isPlaying pg1 then ''Pause'' else ''Play'')\<rparr>)"

definition s_reset_click :: "page \<Rightarrow> page" where
  "s_reset_click pg = pg\<lparr>s_currentTimeIndex := Idx 0, s_lastDistributionUpdateTime := Some (Num 0)\<rparr>"

text \<open>The page an \<open>animate\<close> call leaves behind, whether or not it raised.\<close>

definition page_of :: "(js_error \<times> page) + page \<Rightarrow> page" where
  "page_of r = (case r of Inl (e, pg) \<Rightarrow> pg | Inr pg \<Rightarrow> pg)"

section \<open>Example data\<close>

text \<open>A ready Stream with three ticks and a frame for each.\<close>

definition three_tick_sim :: sim where
  "three_tick_sim =
     \<lparr>ctx = [], mosquitoData = [], timePoints = [Some (Num 0), Some (Num 1), Some (Num 2)],
      currentTimeIndex = Idx 0,
      precomputedFrames = [Some (FrameImage []), Some (FrameImage []), Some (FrameImage [])],
      isPrecomputing = False, precomputeProgress = 100, isReady = True\<rparr>"

text \<open>A ready Stream with \<open>n\<close> ticks \<open>0, 1, ...\<close> and a frame for each.\<close>

definition ready_sim :: "nat \<Rightarrow> sim" where
  "ready_sim n =
     \<lparr>ctx = [], mosquitoData = [], timePoints = map (\<lambda>i. Some (Num (real i))) [0..<n],
      currentTimeIndex = Idx 0,
      precomputedFrames = map (\<lambda>i. Some (FrameImage [TimeText (Num (real i))])) [0..<n],
      isPrecomputing = False, precomputeProgress = 100, isReady = True\<rparr>"

text \<open>A Stream with two ticks whose frames are still to be computed.\<close>

definition pending_sim :: sim where
  "pending_sim =
     \<lparr>ctx = [PrecomputingText 0],
      mosquitoData = [[(''time'', Num 0), (''trajectory_id'', Num 1)], [(''time'', Num 1), (''trajectory_id'', Num 1)]],
      timePoints = [Some (Num 0), Some (Num 1)],
      currentTimeIndex = Idx 0, precomputedFrames = [],
      isPrecomputing = True, precomputeProgress = 0, isReady = False\<rparr>"

text \<open>Three of four Streams are ready; the user has not clicked.\<close>

definition waiting_state :: state where
  "waiting_state =
     \<lparr>simulations = [(''none'', ready_sim 100), (''co2'', ready_sim 100), (''visual'', ready_sim 50),
                     (''visualco2'', pending_sim)],
      isPlaying = False, lastFrameTime = 0, loadedDatasets = 3, precomputedDatasets = 3,
      totalDatasetsToLoad = 4, animationStarted = False, playPauseBtn_textContent = ''Play''\<rparr>"

text \<open>The same, after the user has clicked Play and with the animation loop running.\<close>

definition eager_state :: state where
  "eager_state = waiting_state\<lparr>isPlaying := True, lastFrameTime := 1000, animationStarted := True\<rparr>"

text \<open>All four Streams are ready and playing.\<close>

definition playing_state :: state where
  "playing_state =
     \<lparr>simulations = [(''none'', ready_sim 100), (''co2'', ready_sim 100), (''visual'', ready_sim 50),
                     (''visualco2'', ready_sim 100)],
      isPlaying = True, lastFrameTime = 1000, loadedDatasets = 4, precomputedDatasets = 4,
      totalDatasetsToLoad = 4, animationStarted = True, playPauseBtn_textContent = ''Pause''\<rparr>"

text \<open>The same state paused in mid-playback, two of the Streams only.\<close>

definition paused_state :: state where
  "paused_state =
     \<lparr>simulations =
        [(''none'', three_tick_sim\<lparr>currentTimeIndex := Idx 2, ctx := [FrameImage [TimeText (Num 1)]],
            precomputedFrames := [Some (FrameImage [TimeText (Num 0)]), Some (FrameImage [TimeText (Num 1)]),
                                  Some (FrameImage [TimeText (Num 2)])]\<rparr>),
         (''co2'', three_tick_sim\<lparr>currentTimeIndex := Idx 1, timePoints := [Some (Num 0), Some (Num 1)],
            precomputedFrames := [Some (FrameImage [TimeText (Num 0)]), Some (FrameImage [TimeText (Num 1)])]\<rparr>)],
      isPlaying = False, lastFrameTime = 1000, loadedDatasets = 2, precomputedDatasets = 2,
      totalDatasetsToLoad = 2, animationStarted = True, playPauseBtn_textContent = ''Play''\<rparr>"

text \<open>A page of the single-stream script, playing.\<close>

definition single_page :: page where
  "single_page =
     \<lparr>s_simulationCanvas = [], s_distributionCanvas = [],
      s_mosquitoData = [[(''time'', Num 0), (''trajectory_id'', Num 1)], [(''time'', Num 1), (''trajectory_id'', Num 1)]],
      s_timePoints = [Some (Num 0), Some (Num 1)],
      s_currentTimeIndex = Idx 0, s_isPlaying = True, s_lastFrameTime = 1000,
      s_lastDistributionUpdateTime = Some (Num 0), s_playPauseBtn_textContent = ''Pause''\<rparr>"

text \<open>A file with a line that is no number, and rows that are not in the order of their
  times.\<close>

definition sample_csv :: string where
  "sample_csv = ''time,x\<newline>1,2.5\<newline>n/a\<newline>''"

definition unsorted_rows :: "row list" where
  "unsorted_rows =
     [[(''time'', Num (4 / 100)), (''trajectory_id'', Num 1)],
      [(''time'', Num 0), (''trajectory_id'', Num 1)],
      [(''time'', Num (4 / 100)), (''trajectory_id'', Num 2)],
      [(''time'', Num (2 / 100)), (''trajectory_id'', Num 1)]]"

text \<open>A Stream with ten ticks. Trajectory 1 has samples at the ticks 0, 1, 2, 4, 5, 6 and
  9, so that tick 3 is a gap in its history; trajectory 2 appears at tick 9 only.\<close>

definition sample_row :: "nat \<Rightarrow> nat \<Rightarrow> row" where
  "sample_row t k = [(''time'', Num (real t)), (''trajectory_id'', Num (real k))]"

definition gap_sim :: sim where
  "gap_sim =
     \<lparr>ctx = [],
      mosquitoData = [sample_row 0 1, sample_row 1 1, sample_row 2 1, sample_row 4 1, sample_row 5 1,
                      sample_row 6 1, sample_row 9 1, sample_row 9 2],
      timePoints = map (\<lambda>i. Some (Num (real i))) [0..<10],
      currentTimeIndex = Idx 0, precomputedFrames = [], isPrecomputing = False,
      precomputeProgress = 0, isReady = False\<rparr>"

section \<open>Properties\<close>

lemma advance_tick_iterate:
  "0 < n \<Longrightarrow> ((\<lambda>t. advance_tick t n) ^^ k) (Idx 0) = Idx (k mod n)"
proof (induction k)
  case 0
  then show ?case by simp
next
  case (Suc k)
  then show ?case by (simp add: mod_Suc_eq)
qed

subsection \<open>\<open>parseCSV\<close>\<close>

lemma split_char_not_Nil: "split_char c s \<noteq> []"
  by (induction s) (auto split: list.splits)

lemma parseCSV_Inr:
  "\<exists>l0 rest. split_char (CHR 0x0A) (trim csvText) = l0 # rest
     \<and> parseCSV csvText = Inr (map (parse_line (split_char CHR '','' l0)) rest)"
proof (cases "split_char (CHR 0x0A) (trim csvText)")
  case Nil
  then show ?thesis using split_char_not_Nil by blast
next
  case (Cons l0 rest)
  then show ?thesis by (simp add: parseCSV_def Let_def)
qed

lemma set_insert_index: "set (insert_index k v r) = insert (k, v) (set r)"
  by (induction r) (auto split: if_splits)

lemma map_of_insert_index:
  "k \<notin> set (map fst r) \<Longrightarrow> map_of (insert_index k v r) x = (if x = k then Some v else map_of r x)"
  by (induction r) (auto split: if_splits)

lemma map_of_append_new:
  "k \<notin> set (map fst r) \<Longrightarrow> map_of (r @ [(k, v)]) x = (if x = k then Some v else map_of r x)"
  by (induction r) auto

lemma map_of_set_prop:
  "map_of (set_prop r k v) x = (if k \<noteq> ''__proto__'' \<and> x = k then Some v else map_of r x)"
proof (cases "k = ''__proto__''")
  case True
  then show ?thesis by (simp add: set_prop_def)
next
  case False
  show ?thesis
  proof (cases "k \<in> set (map fst r)")
    case True
    with False show ?thesis by (simp add: set_prop_def update_conv')
  next
    case new: False
    show ?thesis
    proof (cases "is_array_index k")
      case True
      with False new map_of_insert_index [OF new, of v x] show ?thesis by (simp add: set_prop_def)
    next
      case notidx: False
      with False new map_of_append_new [OF new, of v x] show ?thesis by (simp add: set_prop_def)
    qed
  qed
qed

lemma keys_insert_index: "set (map fst (insert_index k v r)) = insert k (set (map fst r))"
  by (simp add: set_insert_index)

lemma keys_update_old: "k \<in> set (map fst r) \<Longrightarrow> set (map fst (AList.update k v r)) = set (map fst r)"
  by (induction r) auto

lemma keys_set_prop:
  "set (map fst (set_prop r k v))
     = (if k = ''__proto__'' then set (map fst r) else insert k (set (map fst r)))"
proof (cases "k = ''__proto__''")
  case True
  then show ?thesis by (simp add: set_prop_def)
next
  case False
  show ?thesis
  proof (cases "k \<in> set (map fst r)")
    case True
    with False keys_update_old [OF True, of v] show ?thesis
      by (simp add: set_prop_def insert_absorb)
  next
    case new: False
    with False keys_insert_index [of k v r] show ?thesis
      by (cases "is_array_index k") (simp_all add: set_prop_def)
  qed
qed

lemma distinct_insert_index:
  "k \<notin> set (map fst r) \<Longrightarrow> distinct (map fst r) \<Longrightarrow> distinct (map fst (insert_index k v r))"
proof (induction r)
  case Nil
  show ?case by simp
next
  case (Cons p r)
  obtain k' v' where p: "p = (k', v')" by (cases p)
  from Cons.prems p have ne: "k' \<noteq> k" and rest: "k \<notin> set (map fst r)"
    and d: "distinct (map fst r)" and fresh: "k' \<notin> set (map fst r)" by auto
  from Cons.IH [OF rest d] have ih: "distinct (map fst (insert_index k v r))" .
  from fresh ne have out: "k' \<notin> set (map fst (insert_index k v r))"
    by (simp only: keys_insert_index) simp
  from ih out ne rest d fresh show ?case by (auto simp: p)
qed

lemma distinct_set_prop:
  "distinct (map fst r) \<Longrightarrow> distinct (map fst (set_prop r k v))"
  by (simp add: set_prop_def distinct_update distinct_insert_index)

lemma fold_set_prop_keys:
  "set (map fst (fold (\<lambda>(i, h) r. set_prop r h (g i)) ps r0))
     = set (map fst r0) \<union> (set (map snd ps) - {''__proto__''})"
proof (induction ps arbitrary: r0)
  case Nil
  show ?case by simp
next
  case (Cons p ps)
  obtain i h where p: "p = (i, h)" by (cases p)
  from Cons.IH [of "set_prop r0 h (g i)"] keys_set_prop [of r0 h "g i"]
  show ?case by (auto simp: p)
qed

lemma fold_set_prop_distinct:
  "distinct (map fst r0) \<Longrightarrow> distinct (map fst (fold (\<lambda>(i, h) r. set_prop r h (g i)) ps r0))"
proof (induction ps arbitrary: r0)
  case Nil
  then show ?case by simp
next
  case (Cons p ps)
  obtain i h where p: "p = (i, h)" by (cases p)
  from Cons.prems have "distinct (map fst (set_prop r0 h (g i)))" by (rule distinct_set_prop)
  from Cons.IH [OF this] show ?case by (simp add: p)
qed

lemma parse_line_keys:
  "set (map fst (parse_line hs line)) = set hs - {''__proto__''}
   \<and> distinct (map fst (parse_line hs line))"
proof -
  have "set (map fst (parse_line hs line)) = set hs - {''__proto__''}"
    using fold_set_prop_keys [of _ "List.enumerate 0 hs" "[]"]
    by (simp add: parse_line_def Let_def)
  moreover have "distinct (map fst (parse_line hs line))"
    using fold_set_prop_distinct [of "[]" _ "List.enumerate 0 hs"]
    by (simp add: parse_line_def Let_def)
  ultimately show ?thesis by simp
qed

lemma fold_set_prop_lookup:
  "p < length ps \<Longrightarrow> snd (ps ! p) \<noteq> ''__proto__'' \<Longrightarrow> snd (ps ! p) \<notin> snd ` set (drop (Suc p) ps) \<Longrightarrow>
   map_of (fold (\<lambda>(i, h) r. set_prop r h (g i)) ps r0) (snd (ps ! p)) = Some (g (fst (ps ! p)))"
proof (induction ps arbitrary: p rule: rev_induct)
  case Nil
  then show ?case by simp
next
  case (snoc x xs)
  obtain i h where x: "x = (i, h)" by (cases x)
  show ?case
  proof (cases "p < length xs")
    case True
    with snoc.prems have np: "snd (xs ! p) \<noteq> ''__proto__''"
      and later: "snd (xs ! p) \<notin> snd ` set (drop (Suc p) xs)" and ne: "snd (xs ! p) \<noteq> h"
      by (auto simp: nth_append x)
    from snoc.IH [OF True np later] True ne show ?thesis
      by (simp add: nth_append x map_of_set_prop)
  next
    case False
    with snoc.prems have "p = length xs" by simp
    with snoc.prems show ?thesis by (simp add: x map_of_set_prop)
  qed
qed

lemma parse_line_lookup:
  assumes "i < length hs" and "hs ! i \<noteq> ''__proto__''" and "hs ! i \<notin> set (drop (Suc i) hs)"
  shows "get_prop (parse_line hs line) (hs ! i) = Some (parseFloat (field_at (split_char CHR '','' line) i))"
proof -
  let ?ps = "List.enumerate 0 hs"
  have n: "i < length ?ps" using assms(1) by simp
  have e: "?ps ! i = (i, hs ! i)" using assms(1) by (simp add: nth_enumerate_eq)
  have "map snd (drop (Suc i) ?ps) = drop (Suc i) hs"
    by (simp flip: drop_map)
  then have "snd ` set (drop (Suc i) ?ps) = set (drop (Suc i) hs)"
    by (metis set_map)
  with assms(3) e have l: "snd (?ps ! i) \<notin> snd ` set (drop (Suc i) ?ps)" by simp
  from assms(2) e have q: "snd (?ps ! i) \<noteq> ''__proto__''" by simp
  from fold_set_prop_lookup [OF n q l, of "\<lambda>i. parseFloat (field_at (split_char CHR '','' line) i)" "[]"] e
  show ?thesis by (simp add: parse_line_def Let_def get_prop_def)
qed

lemma parse_line_proto: "get_prop (parse_line hs line) ''__proto__'' = None"
proof -
  have "''__proto__'' \<notin> set (map fst (parse_line hs line))"
    using parse_line_keys [of hs line] by simp
  then show ?thesis by (simp add: get_prop_def map_of_eq_None_iff)
qed

lemma parseFloat_undefined: "parseFloat None = NaN"
  by (simp add: parseFloat_def parseFloat_string_def is_ws_def is_digit_def)

lemma takeWhile_Nil_iff: "(takeWhile P xs = []) = (case xs of [] \<Rightarrow> True | x # _ \<Rightarrow> \<not> P x)"
  by (cases xs) auto

lemma parseFloat_string_NaN: "(parseFloat_string s = NaN) = (\<not> numeric_prefix s)"
proof -
  obtain neg s2 where t: "take_sign (dropWhile is_ws s) = (neg, s2)" by (cases "take_sign (dropWhile is_ws s)")
  show ?thesis
  proof (cases "take 8 s2 = ''Infinity''")
    case True
    with t show ?thesis by (simp add: parseFloat_string_def numeric_prefix_def)
  next
    case False
    show ?thesis
    proof (cases s2)
      case Nil
      with t False show ?thesis by (simp add: parseFloat_string_def numeric_prefix_def)
    next
      case (Cons c cs)
      show ?thesis
      proof (cases "is_digit c")
        case True
        with t False Cons show ?thesis by (simp add: parseFloat_string_def numeric_prefix_def Let_def)
      next
        case nd: False
        show ?thesis
        proof (cases "c = CHR ''.''")
          case True
          with t False Cons nd show ?thesis
            by (simp add: parseFloat_string_def numeric_prefix_def Let_def takeWhile_Nil_iff split: list.splits)
        next
          case False
          with t \<open>take 8 s2 \<noteq> ''Infinity''\<close> Cons nd show ?thesis
            by (simp add: parseFloat_string_def numeric_prefix_def Let_def)
        qed
      qed
    qed
  qed
qed

text \<open>
  Claim C9 says of every text that the rows are keyed by the header names. A header
  named \<open>__proto__\<close> is not a key of any row: the assignment \<open>row[header] = ...\<close> does
  not create a property of that name. For the file below the one row has the key \<open>x\<close>
  only.
\<close>

theorem header_proto_is_no_key:
  "split_char CHR '','' ''__proto__,x'' = [''__proto__'', ''x'']
   \<and> parseCSV ''__proto__,x\<newline>1,2'' = Inr [[(''x'', Num 2)]]
   \<and> get_prop (parse_line [''__proto__'', ''x''] ''1,2'') ''__proto__'' = None"
proof -
  have a: "split_char CHR '','' ''__proto__,x'' = [''__proto__'', ''x'']" by simp
  have l: "parse_line [''__proto__'', ''x''] ''1,2'' = [(''x'', Num 2)]"
    by (simp add: parse_line_def parseFloat_def parseFloat_string_def is_ws_def
        is_digit_def digits_value_def digit_val_def exponent_of_def scale10_def set_prop_def
        is_array_index_def field_at_def enumerate_eq_zip)
  have b: "parseCSV ''__proto__,x\<newline>1,2'' = Inr [[(''x'', Num 2)]]"
    by (simp add: parseCSV_def trim_def is_ws_def l)
  from a b l show ?thesis by (simp add: get_prop_def)
qed

text \<open>
  Claim C9, amended. For every text \<open>parseCSV\<close> returns rows and raises nothing: the text
  always has a first line, and there is one row for each line after it, in the order of
  the lines (no order of the rows is asked for). The keys of every row are the header
  names other than \<open>__proto__\<close>, each once. For a header other than \<open>__proto__\<close> at index
  \<open>i\<close> (the last one of that name) the value under it is \<open>parseFloat\<close> of the line's field
  \<open>i\<close>, which is \<open>NaN\<close> when the line has no field \<open>i\<close> and, for a field that is there,
  exactly when its text does not start with a number.
\<close>

theorem parseCSV_never_throws:
  "(\<exists>l0 rest. split_char (CHR 0x0A) (trim csvText) = l0 # rest
       \<and> parseCSV csvText = Inr (map (parse_line (split_char CHR '','' l0)) rest))
   \<and> set (map fst (parse_line hs line)) = set hs - {''__proto__''}
   \<and> distinct (map fst (parse_line hs line))
   \<and> (\<forall>i<length hs. hs ! i \<noteq> ''__proto__'' \<longrightarrow> hs ! i \<notin> set (drop (Suc i) hs) \<longrightarrow>
         get_prop (parse_line hs line) (hs ! i)
           = Some (parseFloat (field_at (split_char CHR '','' line) i)))
   \<and> (\<forall>i\<ge>length vs. parseFloat (field_at vs i) = NaN)
   \<and> (parseFloat (Some s) = NaN) = (\<not> numeric_prefix s)"
proof -
  have d: "parseFloat (field_at vs i) = NaN" if "i \<ge> length vs" for i
    using that by (simp add: field_at_def parseFloat_undefined)
  have e: "(parseFloat (Some s) = NaN) = (\<not> numeric_prefix s)"
    by (simp add: parseFloat_def parseFloat_string_NaN)
  from parseCSV_Inr parse_line_keys parse_line_lookup d e show ?thesis by blast
qed

theorem parseCSV_never_throws_witness:
  "parseCSV sample_csv = Inr [[(''time'', Num 1), (''x'', Num (5 / 2))], [(''time'', NaN), (''x'', NaN)]]
   \<and> get_prop (parse_line [''time'', ''x''] ''n/a'') ''x'' = Some NaN
   \<and> get_prop (parse_line [''time'', ''x''] ''n/a'') ''time'' = Some NaN
   \<and> \<not> numeric_prefix ''n/a''
   \<and> map fst (parse_line [''b'', ''10'', ''9'', ''b''] ''1,2,3,4'') = [''9'', ''10'', ''b'']"
proof -
  note th = parseCSV_never_throws [of sample_csv "[''time'', ''x'']" "''n/a''" "[''n/a'']" "''n/a''"]
  have np: "\<not> numeric_prefix ''n/a''"
    by (simp add: numeric_prefix_def is_ws_def is_digit_def)
  have sp: "split_char CHR '','' ''n/a'' = [''n/a'']" by simp
  have tr: "split_char (CHR 0x0A) (trim sample_csv) = [''time,x'', ''1,2.5'', ''n/a'']"
    by (simp add: sample_csv_def trim_def is_ws_def)
  have l1: "parse_line [''time'', ''x''] ''1,2.5'' = [(''time'', Num 1), (''x'', Num (5 / 2))]"
    by (simp add: parse_line_def parseFloat_def parseFloat_string_def is_ws_def
        is_digit_def digits_value_def digit_val_def exponent_of_def scale10_def set_prop_def
        is_array_index_def field_at_def enumerate_eq_zip)
  have l2: "parse_line [''time'', ''x''] ''n/a'' = [(''time'', NaN), (''x'', NaN)]"
    by (simp add: parse_line_def parseFloat_def parseFloat_string_def is_ws_def
        is_digit_def set_prop_def is_array_index_def field_at_def enumerate_eq_zip)
  have l3: "map fst (parse_line [''b'', ''10'', ''9'', ''b''] ''1,2,3,4'') = [''9'', ''10'', ''b'']"
    by (simp add: parse_line_def parseFloat_def parseFloat_string_def is_ws_def
        is_digit_def digits_value_def digit_val_def exponent_of_def scale10_def set_prop_def
        is_array_index_def field_at_def enumerate_eq_zip)
  from th tr have a: "parseCSV sample_csv = Inr (map (parse_line (split_char CHR '','' ''time,x'')) [''1,2.5'', ''n/a''])"
    by simp
  note look = th [THEN conjunct2, THEN conjunct2, THEN conjunct2, THEN conjunct1, rule_format]
  from look [of 1] have b: "get_prop (parse_line [''time'', ''x''] ''n/a'') ''x'' = Some NaN"
    using sp by (simp add: field_at_def parseFloat_undefined)
  from look [of 0] have c: "get_prop (parse_line [''time'', ''x''] ''n/a'') ''time'' = Some NaN"
    using th np sp by (simp add: field_at_def)
  from a l1 l2 l3 b c np show ?thesis by simp
qed

subsection \<open>The Timeline Extractor\<close>

lemma Set_values_foldl:
  "distinct acc \<Longrightarrow>
   distinct (foldl (\<lambda>acc x. if x \<in> set acc then acc else acc @ [x]) acc xs)
   \<and> set (foldl (\<lambda>acc x. if x \<in> set acc then acc else acc @ [x]) acc xs) = set acc \<union> set xs"
  by (induction xs arbitrary: acc) auto

lemma distinct_Set_values: "distinct (Set_values xs)"
  using Set_values_foldl [of "[]" xs] by (simp add: Set_values_def)

lemma set_Set_values: "set (Set_values xs) = set xs"
  using Set_values_foldl [of "[]" xs] by (simp add: Set_values_def)

lemma set_sort_insert: "set (sort_insert cmp x ys) = insert x (set ys)"
  by (induction ys) auto

lemma distinct_sort_insert: "distinct (sort_insert cmp x ys) = (x \<notin> set ys \<and> distinct ys)"
  by (induction ys) (auto simp: set_sort_insert)

lemma set_foldr_sort_insert: "set (foldr (sort_insert cmp) xs []) = set xs"
  by (induction xs) (simp_all add: set_sort_insert)

lemma distinct_foldr_sort_insert: "distinct (foldr (sort_insert cmp) xs []) = distinct xs"
  by (induction xs) (simp_all add: distinct_sort_insert set_foldr_sort_insert)

lemma set_map_filter_id: "set (List.map_filter (\<lambda>x. x) xs) = {v. Some v \<in> set xs}"
  by (induction xs) (auto simp: List.map_filter_simps split: option.splits)

lemma distinct_map_filter_id: "distinct xs \<Longrightarrow> distinct (List.map_filter (\<lambda>x. x) xs)"
  by (induction xs) (auto simp: List.map_filter_simps set_map_filter_id split: option.splits)

lemma set_js_sort: "set (js_sort cmp xs) = set xs"
proof -
  have "Some ` {v. Some v \<in> set xs} \<union> {x \<in> set xs. x = None} = set xs"
  proof (intro set_eqI iffI)
    fix x assume "x \<in> Some ` {v. Some v \<in> set xs} \<union> {x \<in> set xs. x = None}"
    then show "x \<in> set xs" by auto
  next
    fix x assume "x \<in> set xs"
    then show "x \<in> Some ` {v. Some v \<in> set xs} \<union> {x \<in> set xs. x = None}" by (cases x) auto
  qed
  then show ?thesis by (simp add: js_sort_def set_foldr_sort_insert set_map_filter_id)
qed

lemma distinct_js_sort: "distinct xs \<Longrightarrow> distinct (js_sort cmp xs)"
  by (auto simp: js_sort_def distinct_map distinct_foldr_sort_insert distinct_map_filter_id inj_on_def)

text \<open>On numbers other than \<open>NaN\<close> the comparator \<open>a - b\<close> says "after" exactly when \<open>b < a\<close>,
  and \<open><\<close> is a strict linear order.\<close>

lemma sort_after_sub: "a \<noteq> NaN \<Longrightarrow> b \<noteq> NaN \<Longrightarrow> sort_after (js_sub a b) = js_lt b a"
  by (cases a; cases b) (simp_all add: sort_after_def)

lemma js_lt_trans: "js_lt a b \<Longrightarrow> js_lt b c \<Longrightarrow> js_lt a c"
  by (cases a; cases b; cases c) simp_all

lemma js_lt_linear: "a \<noteq> NaN \<Longrightarrow> b \<noteq> NaN \<Longrightarrow> a \<noteq> b \<Longrightarrow> js_lt a b \<or> js_lt b a"
  by (cases a; cases b) auto

lemma sorted_sort_insert:
  assumes "sorted_wrt js_lt ys" "x \<notin> set ys" "x \<noteq> NaN" "NaN \<notin> set ys"
  shows "sorted_wrt js_lt (sort_insert (\<lambda>a b. js_sub a b) x ys)"
  using assms
proof (induction ys)
  case Nil
  then show ?case by simp
next
  case (Cons y ys)
  from Cons.prems have y: "y \<noteq> NaN" "x \<noteq> y" by auto
  from Cons.prems(3) y(1) have after: "sort_after (js_sub x y) = js_lt y x"
    by (rule sort_after_sub)
  from Cons.prems have tail: "sorted_wrt js_lt ys" "x \<notin> set ys" "NaN \<notin> set ys"
    and below: "\<forall>z \<in> set ys. js_lt y z" by auto
  show ?case
  proof (cases "js_lt y x")
    case True
    from Cons.IH [OF tail(1,2) Cons.prems(3) tail(3)] True below show ?thesis
      by (simp add: after set_sort_insert)
  next
    case False
    with Cons.prems(3) y have xy: "js_lt x y" using js_lt_linear [of x y] by auto
    with below have "\<forall>z \<in> set ys. js_lt x z" by (auto intro: js_lt_trans)
    with False xy Cons.prems(1) show ?thesis by (simp add: after)
  qed
qed

lemma sorted_foldr_sort_insert:
  "distinct xs \<Longrightarrow> NaN \<notin> set xs \<Longrightarrow> sorted_wrt js_lt (foldr (sort_insert (\<lambda>a b. js_sub a b)) xs [])"
proof (induction xs)
  case Nil
  show ?case by simp
next
  case (Cons x xs)
  then have "sorted_wrt js_lt (foldr (sort_insert (\<lambda>a b. js_sub a b)) xs [])"
    and "x \<notin> set (foldr (sort_insert (\<lambda>a b. js_sub a b)) xs [])"
    and "x \<noteq> NaN" and "NaN \<notin> set (foldr (sort_insert (\<lambda>a b. js_sub a b)) xs [])"
    by (auto simp: set_foldr_sort_insert)
  then show ?case by (simp add: sorted_sort_insert)
qed

lemma js_sort_numbers:
  assumes "distinct xs" "\<forall>x \<in> set xs. is_number x"
  shows "strictly_ascending (js_sort (\<lambda>a b. js_sub a b) xs)"
proof -
  have none: "filter (\<lambda>x. x = None) xs = []" using assms(2) by (auto simp: is_number_def filter_empty_conv)
  have nan: "NaN \<notin> set (List.map_filter (\<lambda>x. x) xs)"
    using assms(2) by (auto simp: set_map_filter_id is_number_def)
  have "sorted_wrt js_lt (foldr (sort_insert (\<lambda>a b. js_sub a b)) (List.map_filter (\<lambda>x. x) xs) [])"
    using assms(1) nan by (simp add: sorted_foldr_sort_insert distinct_map_filter_id)
  then show ?thesis
    by (simp add: strictly_ascending_def js_sort_def none sorted_wrt_map)
qed

lemma nan_never_ascending:
  assumes "Some NaN \<in> set ts" "2 \<le> length ts"
  shows "\<not> strictly_ascending ts"
proof
  assume asc: "strictly_ascending ts"
  from assms(1) obtain i where i: "i < length ts" "ts ! i = Some NaN" by (auto simp: in_set_conv_nth)
  from assms(2) i(1) obtain j where j: "j < length ts" "j \<noteq> i"
    by (cases "i = 0") (auto intro: that [of 0] that [of 1])
  from j i(1) consider "i < j" | "j < i" by linarith
  then show False
  proof cases
    case 1
    with asc j(1) have "js_lt (to_number (ts ! i)) (to_number (ts ! j))"
      unfolding strictly_ascending_def using sorted_wrt_nth_less by blast
    with i show False by simp
  next
    case 2
    with asc i(1) have "js_lt (to_number (ts ! j)) (to_number (ts ! i))"
      unfolding strictly_ascending_def using sorted_wrt_nth_less by blast
    with i show False by (cases "to_number (ts ! j)") simp_all
  qed
qed

text \<open>
  Claim C5 is stated for every Sample set. It fails for one with a time that is not a
  number: a Sample whose time failed to parse has the time \<open>NaN\<close>, which the \<open>Set\<close> keeps
  and which no comparison puts before or after another time. The timeline of the file
  below is \<open>1, NaN\<close>; by \<open>nan_never_ascending\<close> no order of these two values would be
  ascending.
\<close>

theorem timeline_not_ascending_with_NaN:
  "parseCSV ''time\<newline>1\<newline>n/a'' = Inr [[(''time'', Num 1)], [(''time'', NaN)]]
   \<and> extract_timeline [[(''time'', Num 1)], [(''time'', NaN)]] = [Some (Num 1), Some NaN]
   \<and> \<not> strictly_ascending (extract_timeline [[(''time'', Num 1)], [(''time'', NaN)]])"
proof -
  have a: "parseCSV ''time\<newline>1\<newline>n/a'' = Inr [[(''time'', Num 1)], [(''time'', NaN)]]"
    by (simp add: parseCSV_def trim_def is_ws_def parse_line_def parseFloat_def parseFloat_string_def
        is_digit_def digits_value_def digit_val_def exponent_of_def scale10_def set_prop_def
        is_array_index_def field_at_def enumerate_eq_zip)
  have b: "extract_timeline [[(''time'', Num 1)], [(''time'', NaN)]] = [Some (Num 1), Some NaN]"
    by (simp add: extract_timeline_def js_sort_def Set_values_def get_prop_def List.map_filter_def sort_after_def)
  have c: "\<not> strictly_ascending [Some (Num 1), Some NaN]"
    by (simp add: strictly_ascending_def)
  from a b c show ?thesis by simp
qed

text \<open>
  Claim C5, amended. For every Sample set the Timeline has no duplicate values and holds
  exactly the times of the samples; it is strictly ascending when every sample's time is
  a number (neither \<open>NaN\<close> nor missing); for the empty Sample set it is empty.
\<close>

theorem timeline_extractor:
  "distinct (extract_timeline rows)
   \<and> set (extract_timeline rows) = (\<lambda>r. get_prop r ''time'') ` set rows
   \<and> ((\<forall>r \<in> set rows. is_number (get_prop r ''time'')) \<longrightarrow> strictly_ascending (extract_timeline rows))
   \<and> extract_timeline [] = []"
proof -
  have a: "distinct (extract_timeline rows)"
    by (simp add: extract_timeline_def distinct_js_sort distinct_Set_values)
  have b: "set (extract_timeline rows) = (\<lambda>r. get_prop r ''time'') ` set rows"
    by (simp add: extract_timeline_def set_js_sort set_Set_values)
  have c: "strictly_ascending (extract_timeline rows)" if "\<forall>r \<in> set rows. is_number (get_prop r ''time'')"
    unfolding extract_timeline_def
    by (rule js_sort_numbers) (use that in \<open>auto simp: distinct_Set_values set_Set_values\<close>)
  have d: "extract_timeline [] = []"
    by (simp add: extract_timeline_def js_sort_def Set_values_def List.map_filter_simps)
  from a b c d show ?thesis by blast
qed

theorem timeline_extractor_witness:
  "extract_timeline unsorted_rows = [Some (Num 0), Some (Num (2 / 100)), Some (Num (4 / 100))]
   \<and> strictly_ascending (extract_timeline unsorted_rows)
   \<and> distinct (extract_timeline unsorted_rows)"
proof -
  have h: "\<forall>r \<in> set unsorted_rows. is_number (get_prop r ''time'')"
    by (simp add: unsorted_rows_def is_number_def get_prop_def)
  have e: "extract_timeline unsorted_rows = [Some (Num 0), Some (Num (2 / 100)), Some (Num (4 / 100))]"
    by (simp add: unsorted_rows_def extract_timeline_def js_sort_def Set_values_def get_prop_def
        List.map_filter_def sort_after_def)
  from timeline_extractor [of unsorted_rows] h e show ?thesis by blast
qed

subsection \<open>The Trail Resolver\<close>

lemma trail_loop_eq:
  "trail_loop tps rows cur ti hi i trail =
     trail @ List.map_filter (\<lambda>j. sample_at tps rows cur (ti - int j))
               (takeWhile (\<lambda>j. 0 \<le> ti - int j) [i..<Suc hi])"
proof (induction tps rows cur ti hi i trail rule: trail_loop.induct)
  case (1 tps rows cur ti hi i trail)
  show ?case
  proof (cases "i \<le> hi")
    case False
    then show ?thesis by (simp add: trail_loop.simps [of tps rows cur ti hi i trail] List.map_filter_simps)
  next
    case True
    then have upt: "[i..<Suc hi] = i # [Suc i..<Suc hi]" by (simp add: upt_conv_Cons)
    show ?thesis
    proof (cases "ti - int i < 0")
      case neg: True
      with True show ?thesis
        by (simp add: trail_loop.simps [of tps rows cur ti hi i trail] upt List.map_filter_simps del: upt_Suc)
    next
      case False
      from "1.IH" [OF True refl False refl refl]
      have ih: "trail_loop tps rows cur ti hi (i + 1)
                 (case sample_at tps rows cur (ti - int i) of None \<Rightarrow> trail | Some p \<Rightarrow> trail @ [p])
              = (case sample_at tps rows cur (ti - int i) of None \<Rightarrow> trail | Some p \<Rightarrow> trail @ [p])
                @ List.map_filter (\<lambda>j. sample_at tps rows cur (ti - int j))
                    (takeWhile (\<lambda>j. 0 \<le> ti - int j) [i + 1..<Suc hi])"
        by (simp add: sample_at_def)
      have "trail_loop tps rows cur ti hi i trail
          = trail_loop tps rows cur ti hi (i + 1)
                 (case sample_at tps rows cur (ti - int i) of None \<Rightarrow> trail | Some p \<Rightarrow> trail @ [p])"
        using True False
        by (subst trail_loop.simps) (simp add: Let_def sample_at_def)
      with ih False show ?thesis
        by (simp add: upt List.map_filter_simps del: upt_Suc split: option.splits)
    qed
  qed
qed

lemma indexOf_from_upper: "indexOf_from k xs v < k + int (length xs) \<or> indexOf_from k xs v = -1"
proof (induction xs arbitrary: k)
  case Nil
  show ?case by simp
next
  case (Cons x xs)
  from Cons.IH [of "k + 1"] show ?case by auto
qed

lemma indexOf_upper: "indexOf xs v < int (length xs)"
  using indexOf_from_upper [of 0 xs v] by (auto simp: indexOf_def)

lemma indexOf_from_found:
  "n < length xs \<Longrightarrow> js_strict_eq (xs ! n) v \<Longrightarrow>
   k \<le> indexOf_from k xs v \<and> indexOf_from k xs v \<le> k + int n"
proof (induction xs arbitrary: k n)
  case Nil
  then show ?case by simp
next
  case (Cons x xs)
  show ?case
  proof (cases "js_strict_eq x v")
    case True
    then show ?thesis by simp
  next
    case False
    with Cons.prems obtain m where m: "n = Suc m" by (cases n) auto
    with Cons.prems have "m < length xs" "js_strict_eq (xs ! m) v" by auto
    from Cons.IH [OF this, of "k + 1"] False m show ?thesis by auto
  qed
qed

lemma indexOf_found:
  "0 \<le> k \<Longrightarrow> k < int (length xs) \<Longrightarrow> js_strict_eq v (js_index xs k) \<Longrightarrow>
   0 \<le> indexOf xs v \<and> indexOf xs v \<le> k"
proof -
  assume k: "0 \<le> k" "k < int (length xs)" and e: "js_strict_eq v (js_index xs k)"
  from k have n: "nat k < length xs" by simp
  from e k have "js_strict_eq (xs ! nat k) v" by (auto simp: js_index_def js_strict_eq_def)
  from indexOf_from_found [OF n this, of 0] k show ?thesis by (simp add: indexOf_def)
qed

lemma length_map_filter_le: "length (List.map_filter f xs) \<le> length xs"
  by (simp add: List.map_filter_def)

lemma set_map_filter: "set (List.map_filter f xs) = {y. \<exists>x \<in> set xs. f x = Some y}"
  by (induction xs) (auto simp: List.map_filter_simps split: option.splits)

lemma sample_at_Some:
  "sample_at tps rows cur k = Some r \<Longrightarrow>
   r \<in> set rows \<and> get_prop r ''trajectory_id'' = get_prop cur ''trajectory_id''
   \<and> js_strict_eq (get_prop r ''time'') (js_index tps k)"
  by (auto simp: sample_at_def find_Some_iff js_strict_eq_def)

lemma trail_loop_length: "length (trail_loop tps rows cur ti hi i []) \<le> Suc hi - i"
proof -
  have "length (trail_loop tps rows cur ti hi i []) \<le> length (takeWhile (\<lambda>j. 0 \<le> ti - int j) [i..<Suc hi])"
    by (simp add: trail_loop_eq length_map_filter_le)
  also have "\<dots> \<le> length [i..<Suc hi]" by (rule length_takeWhile_le)
  finally show ?thesis by (simp del: upt_Suc)
qed

lemma trail_loop_members:
  assumes "r \<in> set (trail_loop tps rows cur (tick_of tps cur) hi i [])"
  shows "r \<in> set rows \<and> get_prop r ''trajectory_id'' = get_prop cur ''trajectory_id''
    \<and> 0 \<le> tick_of tps r \<and> tick_of tps r \<le> tick_of tps cur - int i"
proof -
  let ?ti = "tick_of tps cur"
  from assms obtain j where j: "j \<in> set (takeWhile (\<lambda>j. 0 \<le> ?ti - int j) [i..<Suc hi])"
    and s: "sample_at tps rows cur (?ti - int j) = Some r"
    by (auto simp: trail_loop_eq set_map_filter)
  from j have nonneg: "0 \<le> ?ti - int j" and ij: "i \<le> j"
    by (auto dest: set_takeWhileD)
  have "?ti < int (length tps)" by (simp add: tick_of_def indexOf_upper)
  then have inside: "?ti - int j < int (length tps)" by simp
  from sample_at_Some [OF s] have m: "r \<in> set rows"
    "get_prop r ''trajectory_id'' = get_prop cur ''trajectory_id''"
    "js_strict_eq (get_prop r ''time'') (js_index tps (?ti - int j))" by auto
  from indexOf_found [OF nonneg inside m(3)] have "0 \<le> tick_of tps r" "tick_of tps r \<le> ?ti - int j"
    by (simp_all add: tick_of_def)
  with m ij show ?thesis by simp
qed

lemma trail_loop_no_history:
  assumes "0 < i" "\<not> has_prior_history tps rows cur"
  shows "trail_loop tps rows cur (tick_of tps cur) hi i [] = []"
proof (rule ccontr)
  assume "trail_loop tps rows cur (tick_of tps cur) hi i [] \<noteq> []"
  then obtain r where "r \<in> set (trail_loop tps rows cur (tick_of tps cur) hi i [])"
    by (cases "trail_loop tps rows cur (tick_of tps cur) hi i []") auto
  from trail_loop_members [OF this] assms(1) have "has_prior_history tps rows cur"
    by (auto simp: has_prior_history_def)
  with assms(2) show False by simp
qed

text \<open>
  Claim C6. \<open>getTrailData\<close> returns at most \<open>TRAIL_LENGTH\<close> samples. Every one of them is a
  sample of the Stream with the \<open>trajectory_id\<close> of the query, and its tick index is at
  most the tick index of the query minus the start offset (3 in simulation.js, 1 in the
  single-stream script). The function is total, with \<open>indexOf\<close>, the array read and
  \<open>find\<close> answering \<open>-1\<close> and \<open>undefined\<close> where history is missing: the result is the
  list of the samples found at the ticks \<open>current - offset\<close>, \<open>current - offset - 1\<close>, ...,
  nearest first, where a tick without a sample contributes nothing and the scan ends
  after \<open>TRAIL_LENGTH\<close> ticks or at the first tick index below \<open>0\<close>. When the entity has no
  sample at an earlier tick the result is empty.
\<close>

theorem trail_resolver:
  "length (getTrailData cur s) \<le> TRAIL_LENGTH
   \<and> (\<forall>r \<in> set (getTrailData cur s).
         r \<in> set (mosquitoData s)
         \<and> get_prop r ''trajectory_id'' = get_prop cur ''trajectory_id''
         \<and> 0 \<le> tick_of (timePoints s) r
         \<and> tick_of (timePoints s) r \<le> tick_of (timePoints s) cur - 3)
   \<and> getTrailData cur s =
       List.map_filter (\<lambda>j. sample_at (timePoints s) (mosquitoData s) cur (tick_of (timePoints s) cur - int j))
         (takeWhile (\<lambda>j. 0 \<le> tick_of (timePoints s) cur - int j) [3..<TRAIL_LENGTH + 3])
   \<and> (\<not> has_prior_history (timePoints s) (mosquitoData s) cur \<longrightarrow> getTrailData cur s = [])
   \<and> length (s_getTrailData cur pg) \<le> s_TRAIL_LENGTH
   \<and> (\<forall>r \<in> set (s_getTrailData cur pg).
         r \<in> set (s_mosquitoData pg)
         \<and> get_prop r ''trajectory_id'' = get_prop cur ''trajectory_id''
         \<and> 0 \<le> tick_of (s_timePoints pg) r
         \<and> tick_of (s_timePoints pg) r \<le> tick_of (s_timePoints pg) cur - 1)
   \<and> s_getTrailData cur pg =
       List.map_filter (\<lambda>j. sample_at (s_timePoints pg) (s_mosquitoData pg) cur (tick_of (s_timePoints pg) cur - int j))
         (takeWhile (\<lambda>j. 0 \<le> tick_of (s_timePoints pg) cur - int j) [1..<s_TRAIL_LENGTH + 1])
   \<and> (\<not> has_prior_history (s_timePoints pg) (s_mosquitoData pg) cur \<longrightarrow> s_getTrailData cur pg = [])"
proof -
  have g: "getTrailData cur s =
      trail_loop (timePoints s) (mosquitoData s) cur (tick_of (timePoints s) cur) (TRAIL_LENGTH + 2) 3 []"
    by (simp add: getTrailData_def tick_of_def)
  have h: "s_getTrailData cur pg =
      trail_loop (s_timePoints pg) (s_mosquitoData pg) cur (tick_of (s_timePoints pg) cur) s_TRAIL_LENGTH 1 []"
    by (simp add: s_getTrailData_def tick_of_def)
  have a1: "length (getTrailData cur s) \<le> TRAIL_LENGTH"
    using trail_loop_length [of "timePoints s" "mosquitoData s" cur "tick_of (timePoints s) cur" "TRAIL_LENGTH + 2" 3]
    by (simp add: g)
  have a2: "r \<in> set (mosquitoData s)
         \<and> get_prop r ''trajectory_id'' = get_prop cur ''trajectory_id''
         \<and> 0 \<le> tick_of (timePoints s) r
         \<and> tick_of (timePoints s) r \<le> tick_of (timePoints s) cur - 3"
    if "r \<in> set (getTrailData cur s)" for r
    using trail_loop_members [of r "timePoints s" "mosquitoData s" cur "TRAIL_LENGTH + 2" 3] that
    by (simp add: g)
  have a3: "getTrailData cur s =
       List.map_filter (\<lambda>j. sample_at (timePoints s) (mosquitoData s) cur (tick_of (timePoints s) cur - int j))
         (takeWhile (\<lambda>j. 0 \<le> tick_of (timePoints s) cur - int j) [3..<TRAIL_LENGTH + 3])"
  proof -
    have "Suc (TRAIL_LENGTH + 2) = TRAIL_LENGTH + 3" by simp
    then show ?thesis by (simp only: g trail_loop_eq append_Nil)
  qed
  have a4: "getTrailData cur s = []" if "\<not> has_prior_history (timePoints s) (mosquitoData s) cur"
    using trail_loop_no_history [OF _ that, of 3 "TRAIL_LENGTH + 2"] by (simp add: g)
  have b1: "length (s_getTrailData cur pg) \<le> s_TRAIL_LENGTH"
    using trail_loop_length [of "s_timePoints pg" "s_mosquitoData pg" cur "tick_of (s_timePoints pg) cur" s_TRAIL_LENGTH 1]
    by (simp add: h)
  have b2: "r \<in> set (s_mosquitoData pg)
         \<and> get_prop r ''trajectory_id'' = get_prop cur ''trajectory_id''
         \<and> 0 \<le> tick_of (s_timePoints pg) r
         \<and> tick_of (s_timePoints pg) r \<le> tick_of (s_timePoints pg) cur - 1"
    if "r \<in> set (s_getTrailData cur pg)" for r
    using trail_loop_members [of r "s_timePoints pg" "s_mosquitoData pg" cur s_TRAIL_LENGTH 1] that
    by (simp add: h)
  have b3: "s_getTrailData cur pg =
       List.map_filter (\<lambda>j. sample_at (s_timePoints pg) (s_mosquitoData pg) cur (tick_of (s_timePoints pg) cur - int j))
         (takeWhile (\<lambda>j. 0 \<le> tick_of (s_timePoints pg) cur - int j) [1..<s_TRAIL_LENGTH + 1])"
  proof -
    have "Suc s_TRAIL_LENGTH = s_TRAIL_LENGTH + 1" by simp
    then show ?thesis by (simp only: h trail_loop_eq append_Nil)
  qed
  have b4: "s_getTrailData cur pg = []" if "\<not> has_prior_history (s_timePoints pg) (s_mosquitoData pg) cur"
    using trail_loop_no_history [OF _ that, of 1 s_TRAIL_LENGTH] by (simp add: h)
  from a1 a2 a3 a4 b1 b2 b3 b4 show ?thesis by blast
qed

lemma gap_example: "getTrailData (sample_row 9 1) gap_sim = [sample_row 6 1, sample_row 5 1, sample_row 4 1, sample_row 2 1]"
  by code_simp

lemma early_example: "getTrailData (sample_row 2 1) gap_sim = []"
  by code_simp

lemma no_history_example: "\<not> has_prior_history (timePoints gap_sim) (mosquitoData gap_sim) (sample_row 9 2)"
  by code_simp

lemma single_trail_example:
  "\<not> has_prior_history (s_timePoints single_page) (s_mosquitoData single_page) (sample_row 0 1)"
  by code_simp

theorem trail_resolver_witness:
  "getTrailData (sample_row 9 1) gap_sim = [sample_row 6 1, sample_row 5 1, sample_row 4 1, sample_row 2 1]
   \<and> tick_of (timePoints gap_sim) (sample_row 9 1) = 9
   \<and> tick_of (timePoints gap_sim) (sample_row 6 1) \<le> 9 - 3
   \<and> get_prop (sample_row 2 1) ''trajectory_id'' = get_prop (sample_row 9 1) ''trajectory_id''
   \<and> getTrailData (sample_row 2 1) gap_sim = []
   \<and> getTrailData (sample_row 9 2) gap_sim = []
   \<and> s_getTrailData (sample_row 0 1) single_page = []"
proof -
  note th = trail_resolver [of "sample_row 9 1" gap_sim single_page]
  note th2 = trail_resolver [of "sample_row 9 2" gap_sim single_page]
  note th3 = trail_resolver [of "sample_row 0 1" gap_sim single_page]
  have t9: "tick_of (timePoints gap_sim) (sample_row 9 1) = 9" by code_simp
  have m6: "sample_row 6 1 \<in> set (getTrailData (sample_row 9 1) gap_sim)"
    and m2: "sample_row 2 1 \<in> set (getTrailData (sample_row 9 1) gap_sim)"
    by (subst gap_example, simp)+
  from th m6 t9 have a: "tick_of (timePoints gap_sim) (sample_row 6 1) \<le> 9 - 3" by auto
  from th m2 have b: "get_prop (sample_row 2 1) ''trajectory_id'' = get_prop (sample_row 9 1) ''trajectory_id''"
    by blast
  from th2 no_history_example have c: "getTrailData (sample_row 9 2) gap_sim = []" by blast
  from th3 single_trail_example have d: "s_getTrailData (sample_row 0 1) single_page = []" by blast
  from gap_example t9 a b early_example c d show ?thesis by blast
qed

subsection \<open>One Stream under the Playback Clock\<close>


lemma play_sim_fields:
  "timePoints (play_sim s) = timePoints s"
  "precomputedFrames (play_sim s) = precomputedFrames s"
  "mosquitoData (play_sim s) = mosquitoData s"
  "isReady (play_sim s) = isReady s"
  "isPrecomputing (play_sim s) = isPrecomputing s"
  "precomputeProgress (play_sim s) = precomputeProgress s"
  by (simp_all add: play_sim_def)

lemma play_sim_tick:
  "currentTimeIndex (play_sim s) =
     (if precomputedFrames s = [] then currentTimeIndex s
      else advance_tick (currentTimeIndex s) (length (timePoints s)))"
  by (simp add: play_sim_def)

lemma play_sim_iterate_fields:
  "timePoints ((play_sim ^^ k) s) = timePoints s
   \<and> precomputedFrames ((play_sim ^^ k) s) = precomputedFrames s"
  by (induction k) (simp_all add: play_sim_fields)

lemma play_sim_iterate_tick:
  assumes "0 < length (timePoints s)" and "currentTimeIndex s = Idx 0"
  shows "currentTimeIndex ((play_sim ^^ k) s) =
           (if precomputedFrames s = [] then Idx 0 else Idx (k mod length (timePoints s)))"
proof (induction k)
  case 0
  from assms show ?case by simp
next
  case (Suc k)
  from assms(1) Suc show ?case
    by (simp add: play_sim_tick play_sim_iterate_fields mod_Suc_eq)
qed

subsection \<open>The Transport Controller\<close>

lemma reset_sim_fields:
  "mosquitoData (reset_sim s) = mosquitoData s"
  "timePoints (reset_sim s) = timePoints s"
  "precomputedFrames (reset_sim s) = precomputedFrames s"
  "isPrecomputing (reset_sim s) = isPrecomputing s"
  "precomputeProgress (reset_sim s) = precomputeProgress s"
  "isReady (reset_sim s) = isReady s"
  "currentTimeIndex (reset_sim s) = Idx 0"
  by (simp_all add: reset_sim_def Let_def split: option.splits)

lemma reset_sim_ctx:
  "ctx (reset_sim s) = (case js_index (precomputedFrames s) 0 of None \<Rightarrow> ctx s | Some f \<Rightarrow> [f])"
  by (auto simp: reset_sim_def Let_def js_index_def split: option.splits)

lemma reset_sim_eq:
  "reset_sim s = s\<lparr>currentTimeIndex := Idx 0, ctx := ctx (reset_sim s)\<rparr>"
  by (simp add: reset_sim_def Let_def split: option.splits)

lemma reset_sim_idem: "reset_sim (reset_sim s) = reset_sim s"
  by (simp add: reset_sim_def Let_def js_index_def split: option.splits)

lemma map_sims_simulations:
  "simulations (map_sims f st) = map (\<lambda>(k, s). (k, f s)) (simulations st)"
  by (simp add: map_sims_def)

lemma map_sims_globals:
  "isPlaying (map_sims f st) = isPlaying st"
  "lastFrameTime (map_sims f st) = lastFrameTime st"
  "loadedDatasets (map_sims f st) = loadedDatasets st"
  "precomputedDatasets (map_sims f st) = precomputedDatasets st"
  "totalDatasetsToLoad (map_sims f st) = totalDatasetsToLoad st"
  "animationStarted (map_sims f st) = animationStarted st"
  "playPauseBtn_textContent (map_sims f st) = playPauseBtn_textContent st"
  by (simp_all add: map_sims_def)

text \<open>
  Claim C10. A reset changes nothing but the tick index and the canvas of each Stream:
  the fields \<open>mosquitoData\<close>, \<open>timePoints\<close>, \<open>precomputedFrames\<close>, \<open>isPrecomputing\<close>,
  \<open>precomputeProgress\<close> and \<open>isReady\<close> of every Stream and the variables \<open>isPlaying\<close> and
  \<open>lastFrameTime\<close> are what they were; indeed the state after the reset is the state
  before it with new tick indices and canvases.
\<close>

theorem reset_frame:
  "map (\<lambda>(k, s). (k, mosquitoData s, timePoints s, precomputedFrames s, isPrecomputing s,
                   precomputeProgress s, isReady s)) (simulations (reset_click st))
     = map (\<lambda>(k, s). (k, mosquitoData s, timePoints s, precomputedFrames s, isPrecomputing s,
                   precomputeProgress s, isReady s)) (simulations st)
   \<and> isPlaying (reset_click st) = isPlaying st
   \<and> lastFrameTime (reset_click st) = lastFrameTime st
   \<and> reset_click st =
       st\<lparr>simulations :=
            map (\<lambda>(k, s). (k, s\<lparr>currentTimeIndex := Idx 0, ctx := ctx (reset_sim s)\<rparr>)) (simulations st)\<rparr>"
proof -
  have a: "map (\<lambda>(k, s). (k, mosquitoData s, timePoints s, precomputedFrames s, isPrecomputing s,
                   precomputeProgress s, isReady s)) (simulations (reset_click st))
     = map (\<lambda>(k, s). (k, mosquitoData s, timePoints s, precomputedFrames s, isPrecomputing s,
                   precomputeProgress s, isReady s)) (simulations st)"
    by (simp add: reset_click_def map_sims_simulations reset_sim_fields case_prod_unfold comp_def)
  have b: "isPlaying (reset_click st) = isPlaying st" "lastFrameTime (reset_click st) = lastFrameTime st"
    by (simp_all add: reset_click_def map_sims_globals)
  have "map (\<lambda>(k, s). (k, reset_sim s)) (simulations st)
      = map (\<lambda>(k, s). (k, s\<lparr>currentTimeIndex := Idx 0, ctx := ctx (reset_sim s)\<rparr>)) (simulations st)"
    using reset_sim_eq by (intro map_cong) auto
  then have c: "reset_click st =
       st\<lparr>simulations :=
            map (\<lambda>(k, s). (k, s\<lparr>currentTimeIndex := Idx 0, ctx := ctx (reset_sim s)\<rparr>)) (simulations st)\<rparr>"
    by (simp add: reset_click_def map_sims_def)
  from a b c show ?thesis by blast
qed

text \<open>
  Claim C4. After the reset listener has run, every Stream is at tick \<open>0\<close>, and a
  Stream that has a precomputed frame for tick \<open>0\<close> shows exactly that frame; the value
  of \<open>isPlaying\<close> plays no part in it. The frame is drawn by the listener itself, not
  by a later animation frame. The reset of the single-stream script, which has no
  precomputed frames, sets the tick index to \<open>0\<close> as well.
\<close>

theorem reset_draws_first_frame:
  "list_all (\<lambda>(k, s). currentTimeIndex s = Idx 0) (simulations (reset_click st))
   \<and> map fst (simulations (reset_click st)) = map fst (simulations st)
   \<and> (\<forall>i<length (simulations st). \<forall>f.
         js_index (precomputedFrames (snd (simulations st ! i))) 0 = Some f
           \<longrightarrow> ctx (snd (simulations (reset_click st) ! i)) = [f])
   \<and> simulations (reset_click (st\<lparr>isPlaying := p\<rparr>)) = simulations (reset_click st)
   \<and> s_currentTimeIndex (s_reset_click pg) = Idx 0"
proof -
  have a: "list_all (\<lambda>(k, s). currentTimeIndex s = Idx 0) (simulations (reset_click st))"
    by (simp add: reset_click_def map_sims_simulations list_all_iff reset_sim_fields case_prod_unfold)
  have b: "map fst (simulations (reset_click st)) = map fst (simulations st)"
    by (simp add: reset_click_def map_sims_simulations case_prod_unfold comp_def)
  have c: "ctx (snd (simulations (reset_click st) ! i)) = [f]"
    if "i < length (simulations st)" and "js_index (precomputedFrames (snd (simulations st ! i))) 0 = Some f"
    for i f
    using that by (simp add: reset_click_def map_sims_simulations reset_sim_ctx case_prod_unfold)
  have d: "simulations (reset_click (st\<lparr>isPlaying := p\<rparr>)) = simulations (reset_click st)"
    by (simp add: reset_click_def map_sims_def)
  have e: "s_currentTimeIndex (s_reset_click pg) = Idx 0"
    by (simp add: s_reset_click_def)
  from a b c d e show ?thesis by blast
qed

theorem reset_draws_first_frame_witness:
  "isPlaying paused_state = False
   \<and> map (\<lambda>(k, s). (k, currentTimeIndex s, ctx s)) (simulations paused_state)
       = [(''none'', Idx 2, [FrameImage [TimeText (Num 1)]]), (''co2'', Idx 1, [])]
   \<and> js_index (precomputedFrames (snd (simulations paused_state ! 0))) 0 = Some (FrameImage [TimeText (Num 0)])
   \<and> ctx (snd (simulations (reset_click paused_state) ! 0)) = [FrameImage [TimeText (Num 0)]]
   \<and> list_all (\<lambda>(k, s). currentTimeIndex s = Idx 0) (simulations (reset_click paused_state))"
proof -
  have h1: "0 < length (simulations paused_state)" by (simp add: paused_state_def)
  have h2: "js_index (precomputedFrames (snd (simulations paused_state ! 0))) 0 = Some (FrameImage [TimeText (Num 0)])"
    by (simp add: paused_state_def three_tick_sim_def js_index_def)
  have h3: "isPlaying paused_state = False" by (simp add: paused_state_def)
  have h4: "map (\<lambda>(k, s). (k, currentTimeIndex s, ctx s)) (simulations paused_state)
       = [(''none'', Idx 2, [FrameImage [TimeText (Num 1)]]), (''co2'', Idx 1, [])]"
    by (simp add: paused_state_def three_tick_sim_def)
  from reset_draws_first_frame [of paused_state False] h1 h2
  have "ctx (snd (simulations (reset_click paused_state) ! 0)) = [FrameImage [TimeText (Num 0)]]"
    and "list_all (\<lambda>(k, s). currentTimeIndex s = Idx 0) (simulations (reset_click paused_state))"
    by blast+
  with h2 h3 h4 show ?thesis by blast
qed

text \<open>
  Claim C8, as stated, asks that two clicks on play/pause leave the playback state as one
  click does. They do not: already in the initial state the second click undoes the
  first.
\<close>

theorem toggle_not_idempotent:
  "isPlaying (playPause_click (playPause_click (initial_state ''Play'')))
     \<noteq> isPlaying (playPause_click (initial_state ''Play''))"
  by (simp add: playPause_click_def Let_def initial_state_def)

text \<open>
  Claim C8, amended. Reset is idempotent, in both scripts. The play/pause listener
  negates \<open>isPlaying\<close>; two clicks in a row restore the flag (and leave the button with the
  text that belongs to it), so the toggle is an involution on the flag and not
  idempotent. Both listeners are total functions of the state: they have no operation
  that can raise, whatever the readiness of the Streams.
\<close>

theorem transport_actions:
  "reset_click (reset_click st) = reset_click st
   \<and> s_reset_click (s_reset_click pg) = s_reset_click pg
   \<and> isPlaying (playPause_click st) = (\<not> isPlaying st)
   \<and> playPause_click (playPause_click st)
       = st\<lparr>playPauseBtn_textContent := (if isPlaying st then ''Pause'' else ''Play'')\<rparr>
   \<and> s_isPlaying (s_playPause_click pg) = (\<not> s_isPlaying pg)
   \<and> s_playPause_click (s_playPause_click pg)
       = pg\<lparr>s_playPauseBtn_textContent := (if s_isPlaying pg then ''Pause'' else ''Play'')\<rparr>"
proof -
  have "map (\<lambda>(k, s). (k, reset_sim s)) (map (\<lambda>(k, s). (k, reset_sim s)) (simulations st))
      = map (\<lambda>(k, s). (k, reset_sim s)) (simulations st)"
    by (simp add: case_prod_unfold comp_def reset_sim_idem)
  then have a: "reset_click (reset_click st) = reset_click st"
    by (simp add: reset_click_def map_sims_def)
  have b: "s_reset_click (s_reset_click pg) = s_reset_click pg"
    by (simp add: s_reset_click_def)
  have c: "isPlaying (playPause_click st) = (\<not> isPlaying st)"
    by (simp add: playPause_click_def Let_def)
  have d: "playPause_click (playPause_click st)
       = st\<lparr>playPauseBtn_textContent := (if isPlaying st then ''Pause'' else ''Play'')\<rparr>"
    by (simp add: playPause_click_def Let_def)
  have e: "s_isPlaying (s_playPause_click pg) = (\<not> s_isPlaying pg)"
    by (simp add: s_playPause_click_def Let_def)
  have f: "s_playPause_click (s_playPause_click pg)
       = pg\<lparr>s_playPauseBtn_textContent := (if s_isPlaying pg then ''Pause'' else ''Play'')\<rparr>"
    by (simp add: s_playPause_click_def Let_def)
  from a b c d e f show ?thesis by blast
qed

subsection \<open>Automatic start of playback\<close>

lemma update_sim_globals:
  "isPlaying (update_sim k f st) = isPlaying st"
  "precomputedDatasets (update_sim k f st) = precomputedDatasets st"
  "totalDatasetsToLoad (update_sim k f st) = totalDatasetsToLoad st"
  "lastFrameTime (update_sim k f st) = lastFrameTime st"
  by (simp_all add: update_sim_def)

lemma mark_precomputed_effect:
  "precomputedDatasets (mark_precomputed st) = precomputedDatasets st + 1"
  "totalDatasetsToLoad (mark_precomputed st) = totalDatasetsToLoad st"
  "isPlaying (mark_precomputed st) =
     (precomputedDatasets st + 1 = totalDatasetsToLoad st \<or> isPlaying st)"
  "simulations (mark_precomputed st) = simulations st"
  by (simp_all add: mark_precomputed_def Let_def)

lemma loadData_done_globals:
  "isPlaying (loadData_done st) = isPlaying st"
  "precomputedDatasets (loadData_done st) = precomputedDatasets st"
  "totalDatasetsToLoad (loadData_done st) = totalDatasetsToLoad st"
  "simulations (loadData_done st) = simulations st"
  by (simp_all add: loadData_done_def Let_def)

lemma precompute_finish_effect:
  "precomputedDatasets (precompute_finish k st) = precomputedDatasets st + 1"
  "totalDatasetsToLoad (precompute_finish k st) = totalDatasetsToLoad st"
  "isPlaying (precompute_finish k st) =
     (precomputedDatasets st + 1 = totalDatasetsToLoad st \<or> isPlaying st)"
  by (simp_all add: precompute_finish_def loadData_done_globals mark_precomputed_effect update_sim_globals)

lemma init_dataset_globals:
  "isPlaying (init_dataset d st) = isPlaying st"
  "precomputedDatasets (init_dataset d st) = precomputedDatasets st"
  "totalDatasetsToLoad (init_dataset d st) = totalDatasetsToLoad st"
  by (simp_all add: init_dataset_def Let_def split: prod.splits)

lemma fold_init_dataset_globals:
  "isPlaying (fold init_dataset ds st) = isPlaying st
   \<and> precomputedDatasets (fold init_dataset ds st) = precomputedDatasets st
   \<and> totalDatasetsToLoad (fold init_dataset ds st) = totalDatasetsToLoad st"
  by (induction ds arbitrary: st) (simp_all add: init_dataset_globals)

lemma animateAll_globals:
  "isPlaying (animateAll ts st) = isPlaying st"
  "precomputedDatasets (animateAll ts st) = precomputedDatasets st"
  "totalDatasetsToLoad (animateAll ts st) = totalDatasetsToLoad st"
  by (simp_all add: animateAll_def Let_def map_sims_globals)

lemma playPause_click_globals:
  "isPlaying (playPause_click st) = (\<not> isPlaying st)"
  "precomputedDatasets (playPause_click st) = precomputedDatasets st"
  "totalDatasetsToLoad (playPause_click st) = totalDatasetsToLoad st"
  "simulations (playPause_click st) = simulations st"
  by (simp_all add: playPause_click_def Let_def)

lemma counts_one_same:
  "totalDatasetsToLoad st' = totalDatasetsToLoad st \<Longrightarrow> precomputedDatasets st' = precomputedDatasets st
   \<Longrightarrow> isPlaying st' = isPlaying st \<Longrightarrow> counts_one st st'"
  by (simp add: counts_one_def)

lemma counts_one_finish:
  assumes "totalDatasetsToLoad st1 = totalDatasetsToLoad st" "precomputedDatasets st1 = precomputedDatasets st"
    "isPlaying st1 = isPlaying st"
  shows "counts_one st (precompute_finish k st1)"
  using assms by (simp add: counts_one_def precompute_finish_effect)

lemma loadData_response_counts: "counts_one st (loadData_response k r st)"
proof (cases "map_of (simulations st) k")
  case None
  then show ?thesis by (simp add: loadData_response_def counts_one_same)
next
  case (Some s0)
  show ?thesis
  proof (cases r)
    case (Inl e)
    with Some show ?thesis by (simp add: loadData_response_def counts_one_same update_sim_globals)
  next
    case (Inr csvText)
    show ?thesis
    proof (cases "parseCSV csvText")
      case (Inl e)
      with Some Inr show ?thesis by (simp add: loadData_response_def counts_one_same update_sim_globals)
    next
      case (Inr parsedData)
      with Some \<open>r = Inr csvText\<close> show ?thesis
        by (simp add: loadData_response_def Let_def counts_one_same counts_one_finish update_sim_globals)
    qed
  qed
qed

lemma precompute_resume_counts: "counts_one st (precompute_resume k i st)"
proof (cases "map_of (simulations st) k")
  case None
  then show ?thesis by (simp add: precompute_resume_def counts_one_same)
next
  case (Some s)
  show ?thesis
  proof (cases "i < length (timePoints s)")
    case False
    with Some show ?thesis by (simp add: precompute_resume_def counts_one_same)
  next
    case True
    show ?thesis
    proof (cases "precompute_chunk s i")
      case (Inl es)
      with Some True show ?thesis
        by (cases es) (simp add: precompute_resume_def counts_one_same update_sim_globals)
    next
      case (Inr s1)
      with Some True show ?thesis
        by (simp add: precompute_resume_def Let_def counts_one_same counts_one_finish update_sim_globals)
    qed
  qed
qed

lemma step_counts: "ev \<noteq> Click_playPause \<Longrightarrow> counts_one st (step ev st)"
proof (cases ev)
  case ImageLoaded
  then show ?thesis
    by (simp add: initAllSimulations_def counts_one_same fold_init_dataset_globals)
next
  case (Response k r)
  then show ?thesis by (simp add: loadData_response_counts)
next
  case (ChunkTurn k i)
  then show ?thesis by (simp add: precompute_resume_counts)
next
  case Click_playPause
  assume "ev \<noteq> Click_playPause"
  with Click_playPause show ?thesis by simp
next
  case Click_reset
  then show ?thesis by (simp add: reset_click_def counts_one_same map_sims_globals)
next
  case (Frame ts)
  then show ?thesis by (simp add: counts_one_same animateAll_globals)
qed

lemma step_click_counts:
  "totalDatasetsToLoad (step Click_playPause st) = totalDatasetsToLoad st
   \<and> precomputedDatasets (step Click_playPause st) = precomputedDatasets st"
  by (simp add: playPause_click_globals)

lemma step_total: "totalDatasetsToLoad (step ev st) = totalDatasetsToLoad st"
  using step_counts [of ev st] step_click_counts [of st]
  by (cases "ev = Click_playPause") (auto simp: counts_one_def)





lemma run_total: "totalDatasetsToLoad (run evs st) = totalDatasetsToLoad st"
  by (induction evs arbitrary: st) (simp_all add: run_def step_total)








subsection \<open>The Playback Clock\<close>

lemma show_progress_tick: "currentTimeIndex (show_progress s) = currentTimeIndex s"
  by (simp add: show_progress_def)

lemma allReady_lastFrameTime: "allReady (st\<lparr>lastFrameTime := t\<rparr>) = allReady st"
  by (simp add: allReady_def)

lemma animateAll_waiting:
  "\<not> allReady st \<Longrightarrow>
   animateAll ts st =
     map_sims show_progress (if lastFrameTime st = 0 then st\<lparr>lastFrameTime := ts\<rparr> else st)"
  by (simp add: animateAll_def Let_def allReady_lastFrameTime)

lemma animateAll_advance:
  assumes "isPlaying st" "allReady st" "FRAME_INTERVAL \<le> ts - lastFrameTime st" "lastFrameTime st \<noteq> 0"
  shows "animateAll ts st =
     map_sims play_sim (st\<lparr>lastFrameTime := ts - js_rem (ts - lastFrameTime st) FRAME_INTERVAL\<rparr>)"
  using assms by (simp add: animateAll_def Let_def)

lemma animateAll_hold:
  assumes "allReady st" "\<not> isPlaying st \<or> ts - (if lastFrameTime st = 0 then ts else lastFrameTime st) < FRAME_INTERVAL"
  shows "animateAll ts st = (if lastFrameTime st = 0 then st\<lparr>lastFrameTime := ts\<rparr> else st)"
  using assms by (auto simp: animateAll_def Let_def allReady_lastFrameTime)

lemma FRAME_INTERVAL_eq: "FRAME_INTERVAL = 20"
  by (simp add: FRAME_INTERVAL_def FPS_def)

lemma play_sim_iterate_ready: "isReady ((play_sim ^^ n) s) = isReady s"
  by (induction n) (simp_all add: play_sim_fields)

lemma map_sims_map_sims: "map_sims f (map_sims g st) = map_sims (f \<circ> g) st"
  by (simp add: map_sims_def case_prod_unfold comp_def)

lemma allReady_map_sims: "(\<And>s. isReady (f s) = isReady s) \<Longrightarrow> allReady (map_sims f st) = allReady st"
  by (simp add: allReady_def map_sims_def list_all_iff case_prod_unfold)

lemma map_sims_lastFrameTime_update:
  "(map_sims f st)\<lparr>lastFrameTime := t\<rparr> = map_sims f (st\<lparr>lastFrameTime := t\<rparr>)"
  by (simp add: map_sims_def)

lemma js_rem_self: "y \<noteq> 0 \<Longrightarrow> js_rem y y = 0"
  by (simp add: js_rem_def)

lemma run_snoc: "run (evs @ [ev]) st = step ev (run evs st)"
  by (simp add: run_def)

lemma frame_times_Suc:
  "frame_times t0 (Suc n) = frame_times t0 n @ [Frame (t0 + FRAME_INTERVAL * real (Suc n))]"
  by (simp add: frame_times_def)

lemma run_frame_times:
  assumes "isPlaying st" "allReady st" "animationStarted st" "0 < lastFrameTime st"
  shows "run (frame_times (lastFrameTime st) n) st =
           map_sims (play_sim ^^ n) (st\<lparr>lastFrameTime := lastFrameTime st + FRAME_INTERVAL * real n\<rparr>)"
proof (induction n)
  case 0
  show ?case by (simp add: frame_times_def run_def map_sims_def case_prod_unfold)
next
  case (Suc n)
  let ?t = "lastFrameTime st + FRAME_INTERVAL * real n"
  let ?st = "map_sims (play_sim ^^ n) (st\<lparr>lastFrameTime := ?t\<rparr>)"
  have pos: "0 < ?t" using assms(4) by (simp add: FRAME_INTERVAL_eq add_pos_nonneg)
  have p: "isPlaying ?st" using assms(1) by (simp add: map_sims_globals)
  have r: "allReady ?st"
    using assms(2) by (simp add: allReady_map_sims play_sim_iterate_ready allReady_lastFrameTime)
  have s: "animationStarted ?st" using assms(3) by (simp add: map_sims_globals)
  have l: "lastFrameTime ?st = ?t" by (simp add: map_sims_globals)
  have d: "FRAME_INTERVAL \<le> (lastFrameTime st + FRAME_INTERVAL * real (Suc n)) - lastFrameTime ?st"
    by (simp add: l algebra_simps)
  have nz: "lastFrameTime ?st \<noteq> 0" using pos l by simp
  have "run (frame_times (lastFrameTime st) (Suc n)) st
      = step (Frame (lastFrameTime st + FRAME_INTERVAL * real (Suc n))) ?st"
    by (simp only: frame_times_Suc run_snoc Suc.IH)
  also have "\<dots> = animateAll (lastFrameTime st + FRAME_INTERVAL * real (Suc n)) ?st"
    using s by simp
  also have "\<dots> = map_sims play_sim
      (?st\<lparr>lastFrameTime := (lastFrameTime st + FRAME_INTERVAL * real (Suc n))
          - js_rem ((lastFrameTime st + FRAME_INTERVAL * real (Suc n)) - lastFrameTime ?st) FRAME_INTERVAL\<rparr>)"
    by (rule animateAll_advance [OF p r d nz])
  also have "(lastFrameTime st + FRAME_INTERVAL * real (Suc n)) - lastFrameTime ?st = FRAME_INTERVAL"
    by (simp add: l algebra_simps)
  also have "js_rem FRAME_INTERVAL FRAME_INTERVAL = 0"
    by (rule js_rem_self) (simp add: FRAME_INTERVAL_eq)
  finally show ?case
    by (simp add: map_sims_lastFrameTime_update map_sims_map_sims comp_def)
qed

lemma ready_sim_fields:
  "length (timePoints (ready_sim n)) = n"
  "currentTimeIndex (ready_sim n) = Idx 0"
  "isReady (ready_sim n)"
  "(precomputedFrames (ready_sim n) = []) = (n = 0)"
  by (simp_all add: ready_sim_def)

lemma ready_sim_after:
  "0 < n \<Longrightarrow> currentTimeIndex ((play_sim ^^ k) (ready_sim n)) = Idx (k mod n)"
  using play_sim_iterate_tick [of "ready_sim n" k] by (simp add: ready_sim_fields)

lemma fifty_frames_example:
  "map (\<lambda>(k, s). (k, currentTimeIndex s)) (simulations (run (frame_times 1000 50) playing_state))
     = [(''none'', Idx 50), (''co2'', Idx 50), (''visual'', Idx 0), (''visualco2'', Idx 50)]"
proof -
  have "run (frame_times (lastFrameTime playing_state) 50) playing_state =
           map_sims (play_sim ^^ 50)
             (playing_state\<lparr>lastFrameTime := lastFrameTime playing_state + FRAME_INTERVAL * real 50\<rparr>)"
    by (rule run_frame_times) (simp_all add: playing_state_def allReady_def ready_sim_fields)
  moreover have "lastFrameTime playing_state = 1000" by (simp add: playing_state_def)
  ultimately show ?thesis
    by (simp add: map_sims_simulations playing_state_def ready_sim_after)
qed

text \<open>
  Claim C3. While some Stream is not ready, an animation frame leaves the tick index of
  every Stream as it is. When all Streams are ready, \<open>isPlaying\<close> holds and a frame
  interval has passed, every Stream that has frames moves to \<open>(index + 1) % length\<close> for
  the length of its own Timeline, so that Streams with Timelines of different lengths
  wrap at different frames.
\<close>

theorem ticks_wait_then_wrap:
  "(\<not> allReady st \<longrightarrow>
      map (\<lambda>(k, s). (k, currentTimeIndex s)) (simulations (animateAll ts st))
        = map (\<lambda>(k, s). (k, currentTimeIndex s)) (simulations st))
   \<and> (allReady st \<and> isPlaying st
        \<and> FRAME_INTERVAL \<le> ts - (if lastFrameTime st = 0 then ts else lastFrameTime st) \<longrightarrow>
      map (\<lambda>(k, s). (k, currentTimeIndex s)) (simulations (animateAll ts st))
        = map (\<lambda>(k, s). (k, if precomputedFrames s = [] then currentTimeIndex s
                             else advance_tick (currentTimeIndex s) (length (timePoints s))))
            (simulations st))"
proof -
  have a: "map (\<lambda>(k, s). (k, currentTimeIndex s)) (simulations (animateAll ts st))
        = map (\<lambda>(k, s). (k, currentTimeIndex s)) (simulations st)" if "\<not> allReady st"
    using that
    by (simp add: animateAll_waiting map_sims_simulations show_progress_tick case_prod_unfold comp_def)
  have b: "map (\<lambda>(k, s). (k, currentTimeIndex s)) (simulations (animateAll ts st))
        = map (\<lambda>(k, s). (k, if precomputedFrames s = [] then currentTimeIndex s
                             else advance_tick (currentTimeIndex s) (length (timePoints s))))
            (simulations st)"
    if "allReady st \<and> isPlaying st
        \<and> FRAME_INTERVAL \<le> ts - (if lastFrameTime st = 0 then ts else lastFrameTime st)"
  proof -
    from that have nz: "lastFrameTime st \<noteq> 0" by (auto simp: FRAME_INTERVAL_eq split: if_splits)
    with that have "animateAll ts st =
       map_sims play_sim (st\<lparr>lastFrameTime := ts - js_rem (ts - lastFrameTime st) FRAME_INTERVAL\<rparr>)"
      by (simp add: animateAll_advance)
    then show ?thesis
      by (simp add: map_sims_simulations play_sim_tick case_prod_unfold comp_def)
  qed
  from a b show ?thesis by blast
qed

theorem ticks_wait_then_wrap_witness:
  "\<not> allReady eager_state \<and> isPlaying eager_state
   \<and> map (\<lambda>(k, s). (k, currentTimeIndex s)) (simulations (animateAll 1025 eager_state))
       = [(''none'', Idx 0), (''co2'', Idx 0), (''visual'', Idx 0), (''visualco2'', Idx 0)]
   \<and> allReady playing_state \<and> isPlaying playing_state
   \<and> map (\<lambda>(k, s). (k, currentTimeIndex s)) (simulations (animateAll 1025 playing_state))
       = [(''none'', Idx 1), (''co2'', Idx 1), (''visual'', Idx 1), (''visualco2'', Idx 1)]
   \<and> map (\<lambda>(k, s). (k, currentTimeIndex s)) (simulations (run (frame_times 1000 50) playing_state))
       = [(''none'', Idx 50), (''co2'', Idx 50), (''visual'', Idx 0), (''visualco2'', Idx 50)]"
proof -
  have w1: "\<not> allReady eager_state"
    by (simp add: eager_state_def waiting_state_def allReady_def pending_sim_def)
  have w2: "isPlaying eager_state" by (simp add: eager_state_def)
  have w3: "map (\<lambda>(k, s). (k, currentTimeIndex s)) (simulations eager_state)
       = [(''none'', Idx 0), (''co2'', Idx 0), (''visual'', Idx 0), (''visualco2'', Idx 0)]"
    by (simp add: eager_state_def waiting_state_def ready_sim_fields pending_sim_def)
  have p1: "allReady playing_state" by (simp add: playing_state_def allReady_def ready_sim_fields)
  have p2: "isPlaying playing_state" by (simp add: playing_state_def)
  have p3: "FRAME_INTERVAL \<le> 1025 - (if lastFrameTime playing_state = 0 then 1025 else lastFrameTime playing_state)"
    by (simp add: playing_state_def FRAME_INTERVAL_eq)
  have p4: "map (\<lambda>(k, s). (k, if precomputedFrames s = [] then currentTimeIndex s
                             else advance_tick (currentTimeIndex s) (length (timePoints s))))
            (simulations playing_state)
       = [(''none'', Idx 1), (''co2'', Idx 1), (''visual'', Idx 1), (''visualco2'', Idx 1)]"
    by (simp add: playing_state_def ready_sim_fields)
  from ticks_wait_then_wrap [of eager_state 1025] w1 w3
  have a: "map (\<lambda>(k, s). (k, currentTimeIndex s)) (simulations (animateAll 1025 eager_state))
       = [(''none'', Idx 0), (''co2'', Idx 0), (''visual'', Idx 0), (''visualco2'', Idx 0)]"
    by simp
  from ticks_wait_then_wrap [of playing_state 1025] p1 p2 p3 p4
  have b: "map (\<lambda>(k, s). (k, currentTimeIndex s)) (simulations (animateAll 1025 playing_state))
       = [(''none'', Idx 1), (''co2'', Idx 1), (''visual'', Idx 1), (''visualco2'', Idx 1)]"
    by simp
  from w1 w2 a p1 p2 b fifty_frames_example show ?thesis by blast
qed

text \<open>What the two scripts do with the reference time when they advance: \<open>animateAll\<close>
  keeps the remainder of the elapsed time, \<open>animate\<close> sets the reference time to the
  timestamp.\<close>

lemma animateAll_keeps_remainder:
  assumes "isPlaying st" "allReady st" "FRAME_INTERVAL \<le> ts - lastFrameTime st" "lastFrameTime st \<noteq> 0"
  shows "lastFrameTime (animateAll ts st) = ts - js_rem (ts - lastFrameTime st) FRAME_INTERVAL"
  by (simp add: animateAll_advance [OF assms] map_sims_globals)

lemma updateSimulation_lastFrameTime:
  "s_lastFrameTime (page_of (updateSimulation pg)) = s_lastFrameTime pg"
  by (simp add: updateSimulation_def page_of_def Let_def split: option.splits)

lemma updateDistribution_lastFrameTime:
  "s_lastFrameTime (page_of (updateDistribution t pg)) = s_lastFrameTime pg"
  by (simp add: updateDistribution_def page_of_def Let_def split: option.splits)

lemma animate_drops_remainder:
  assumes "s_isPlaying pg" "FRAME_INTERVAL \<le> ts - s_lastFrameTime pg" "s_lastFrameTime pg \<noteq> 0"
  shows "s_lastFrameTime (page_of (animate ts pg)) = ts"
proof -
  let ?pg1 = "pg\<lparr>s_lastFrameTime := ts\<rparr>"
  have u: "s_lastFrameTime (page_of (updateSimulation ?pg1)) = ts"
    using updateSimulation_lastFrameTime [of ?pg1] by simp
  show ?thesis
  proof (cases "updateSimulation ?pg1")
    case (Inl ep)
    with u assms show ?thesis by (simp add: animate_def Let_def page_of_def)
  next
    case (Inr pg2)
    with u have l2: "s_lastFrameTime pg2 = ts" by (simp add: page_of_def)
    let ?ct = "index_at (s_timePoints pg2) (s_currentTimeIndex pg2)"
    have d: "s_lastFrameTime (page_of (updateDistribution ?ct pg2)) = ts"
      using updateDistribution_lastFrameTime [of ?ct pg2] l2 by simp
    show ?thesis
    proof (cases "updateDistribution ?ct pg2")
      case (Inl ep)
      with Inr d l2 assms show ?thesis by (auto simp: animate_def Let_def page_of_def)
    next
      case (Inr pg3)
      with \<open>updateSimulation ?pg1 = Inr pg2\<close> d l2 assms show ?thesis
        by (auto simp: animate_def Let_def page_of_def)
    qed
  qed
qed

text \<open>
  Claim C2. With the reference time at \<open>1000\<close> and a wake-up at \<open>1025\<close>, \<open>animateAll\<close>
  moves the reference time to \<open>1025 - (25 % 20) = 1020\<close>, as the claim says; \<open>animate\<close> of
  the single-stream script moves it to \<open>1025\<close> and so drops the five milliseconds.
\<close>

theorem single_stream_clock_drops_drift:
  "s_isPlaying single_page
   \<and> FRAME_INTERVAL \<le> 1025 - s_lastFrameTime single_page
   \<and> s_lastFrameTime (page_of (animate 1025 single_page)) = 1025
   \<and> 1025 - js_rem (1025 - s_lastFrameTime single_page) FRAME_INTERVAL = 1020
   \<and> lastFrameTime (animateAll 1025 playing_state) = 1020"
proof -
  have a: "s_isPlaying single_page" by (simp add: single_page_def)
  have b: "FRAME_INTERVAL \<le> 1025 - s_lastFrameTime single_page"
    by (simp add: single_page_def FRAME_INTERVAL_eq)
  have c: "s_lastFrameTime single_page \<noteq> 0" by (simp add: single_page_def)
  have d: "1025 - js_rem (1025 - s_lastFrameTime single_page) FRAME_INTERVAL = 1020"
    by (simp add: single_page_def FRAME_INTERVAL_eq js_rem_def)
  have e: "lastFrameTime (animateAll 1025 playing_state) = 1020"
    by (simp add: animateAll_def Let_def playing_state_def allReady_def ready_sim_fields FRAME_INTERVAL_eq
      js_rem_def map_sims_globals)
  from a b d e animate_drops_remainder [OF a b c] show ?thesis by blast
qed

subsection \<open>Wraparound of the tick index\<close>

text \<open>
  Claim C7. A Stream whose Timeline has \<open>N \<ge> 1\<close> ticks and whose tick index is \<open>0\<close> is
  back at tick \<open>0\<close> after \<open>N\<close> advances of the Playback Clock, and after any number of
  advances its tick index is one of \<open>0, ..., N - 1\<close>. This holds of the advance as
  \<open>animateAll\<close> applies it to a Stream (\<open>play_sim\<close>) and of the expression
  \<open>(index + 1) % length\<close> on its own, which is all the single-stream script uses.
\<close>

theorem tick_wraparound:
  assumes "1 \<le> length (timePoints s)" and "currentTimeIndex s = Idx 0"
  shows "currentTimeIndex ((play_sim ^^ length (timePoints s)) s) = Idx 0
    \<and> (\<forall>k. \<exists>j<length (timePoints s). currentTimeIndex ((play_sim ^^ k) s) = Idx j)
    \<and> ((\<lambda>t. advance_tick t (length (timePoints s))) ^^ length (timePoints s)) (Idx 0) = Idx 0
    \<and> (\<forall>k. \<exists>j<length (timePoints s).
          ((\<lambda>t. advance_tick t (length (timePoints s))) ^^ k) (Idx 0) = Idx j)"
proof -
  from assms(1) have pos: "0 < length (timePoints s)" by linarith
  have a: "currentTimeIndex ((play_sim ^^ length (timePoints s)) s) = Idx 0"
    using play_sim_iterate_tick [OF pos assms(2)] by simp
  have b: "\<exists>j<length (timePoints s). currentTimeIndex ((play_sim ^^ k) s) = Idx j" for k
    using play_sim_iterate_tick [OF pos assms(2), of k] pos
    by (cases "precomputedFrames s = []") auto
  have c: "((\<lambda>t. advance_tick t (length (timePoints s))) ^^ length (timePoints s)) (Idx 0) = Idx 0"
    using advance_tick_iterate [OF pos] by simp
  have d: "\<exists>j<length (timePoints s).
          ((\<lambda>t. advance_tick t (length (timePoints s))) ^^ k) (Idx 0) = Idx j" for k
    using advance_tick_iterate [OF pos, of k] pos by auto
  from a b c d show ?thesis by blast
qed

theorem tick_wraparound_witness:
  "currentTimeIndex (play_sim three_tick_sim) = Idx 1
   \<and> currentTimeIndex (play_sim (play_sim three_tick_sim)) = Idx 2
   \<and> currentTimeIndex ((play_sim ^^ length (timePoints three_tick_sim)) three_tick_sim) = Idx 0"
proof -
  have h1: "1 \<le> length (timePoints three_tick_sim)" by (simp add: three_tick_sim_def)
  have h2: "currentTimeIndex three_tick_sim = Idx 0" by (simp add: three_tick_sim_def)
  have "currentTimeIndex (play_sim three_tick_sim) = Idx 1"
    by (simp add: three_tick_sim_def play_sim_tick)
  moreover have "currentTimeIndex (play_sim (play_sim three_tick_sim)) = Idx 2"
    by (simp add: three_tick_sim_def play_sim_tick play_sim_fields)
  ultimately show ?thesis using tick_wraparound [OF h1 h2] by simp
qed

end
